theory Spec2Isabelle
  imports Complex_Main "HOL-Library.Word"
begin

section \<open>The Tilde arithmetic model of \<open>TildeMathematicaClean.jsx\<close>\<close>

text \<open>
  The numeric core of the component: the slider mapping (\<open>betaToSlider\<close>,
  \<open>sliderToBeta\<close>), the lookup-table functions (\<open>calculateLutLength\<close>,
  \<open>getLutValue\<close>) and the memoised values of \<open>TildeMathematica\<close>
  (\<open>maxValue\<close>, \<open>commonTerms\<close>, \<open>result\<close>, \<open>gateCount\<close>,
  \<open>errorPercentage\<close>). The file holds the same code twice (lines 1 to 1184 and a
  second copy from line 1186 on); the two copies of these functions agree line by line.

  How JavaScript numbers are modelled. A number is a binary64 value: a real number, or
  one of \<open>Infinity\<close>, \<open>-Infinity\<close>, \<open>NaN\<close>. The operations \<open>+\<close>, \<open>-\<close>, \<open>*\<close>, \<open>/\<close> compute
  the exact result and round it to the nearest binary64 number, ties to the even
  significand, with gradual underflow and with overflow to an infinity, as IEEE 754
  prescribes; \<open>Math.floor\<close>, \<open>Math.round\<close>, \<open>Math.min\<close>, \<open>Math.max\<close>, \<open>Math.abs\<close> are
  exact. A decimal literal denotes the binary64 number nearest to it. \<open>Math.log\<close> and
  \<open>Math.exp\<close> are left to the implementation by the language; the model takes them as a
  parameter, any pair of functions that agree with the real logarithm and exponential
  up to a relative error of \<open>2\<^sup>-\<^sup>4\<^sup>0\<close> (the exponential on \<open>[-700, 700]\<close>, where it neither
  underflows nor overflows). The sign of a zero is not modelled: a zero is the
  positive zero. The bit width and the operands are integers (\<open>parseInt\<close> of the
  inputs), the operation is the string the source switches on, \<open>beta\<close> is a finite
  number. The integers of the program are below \<open>2\<^sup>5\<^sup>3\<close> in absolute value, where every
  integer is a binary64 number and integer arithmetic is exact; \<open>1 << bitWidth\<close> is the
  32-bit shift.
\<close>

subsection \<open>Binary64 rounding\<close>

datatype jsnum = Fin real | PInf | NInf | NaN

definition js_signed_inf :: "bool \<Rightarrow> jsnum" where
  "js_signed_inf negative = (if negative then NInf else PInf)"

definition round_ties_even :: "real \<Rightarrow> int" where
  "round_ties_even x =
     (let n = \<lfloor>x\<rfloor>; r = x - of_int n
      in if r < 1 / 2 then n
         else if 1 / 2 < r then n + 1
         else if even n then n else n + 1)"

text \<open>
  The binary exponent of \<open>x\<close>, not below that of the smallest normal number, and the
  distance \<open>ulp\<close> between the binary64 numbers around \<open>x\<close>: the significand has 53 bits.
\<close>

definition binade :: "real \<Rightarrow> int" where
  "binade x = max \<lfloor>log 2 \<bar>x\<bar>\<rfloor> (- 1022)"

definition ulp :: "real \<Rightarrow> real" where
  "ulp x = 2 powr (of_int (binade x) - 52)"

definition round64 :: "real \<Rightarrow> real" where
  "round64 x = of_int (round_ties_even (x / ulp x)) * ulp x"

text \<open>A rounded result of magnitude \<open>2\<^sup>1\<^sup>0\<^sup>2\<^sup>4\<close> or more is an infinity.\<close>

definition binary64 :: "real \<Rightarrow> jsnum" where
  "binary64 x =
     (let y = round64 x
      in if 2 ^ 1024 \<le> \<bar>y\<bar> then js_signed_inf (y < 0) else Fin y)"

text \<open>The value of a decimal literal (all literals of the source are in range).\<close>

definition js_literal :: "real \<Rightarrow> real" where
  "js_literal x = round64 x"

definition is_binary64 :: "real \<Rightarrow> bool" where
  "is_binary64 x \<longleftrightarrow> binary64 x = Fin x"

subsection \<open>JavaScript numbers\<close>

fun js_neg :: "jsnum \<Rightarrow> jsnum" where
  "js_neg (Fin x) = Fin (- x)"
| "js_neg PInf = NInf"
| "js_neg NInf = PInf"
| "js_neg NaN = NaN"

fun js_add :: "jsnum \<Rightarrow> jsnum \<Rightarrow> jsnum" where
  "js_add (Fin x) (Fin y) = binary64 (x + y)"
| "js_add NaN _ = NaN"
| "js_add _ NaN = NaN"
| "js_add PInf NInf = NaN"
| "js_add NInf PInf = NaN"
| "js_add PInf _ = PInf"
| "js_add _ PInf = PInf"
| "js_add NInf _ = NInf"
| "js_add _ NInf = NInf"

definition js_sub :: "jsnum \<Rightarrow> jsnum \<Rightarrow> jsnum" where
  "js_sub x y = js_add x (js_neg y)"

text \<open>
  The sign of an infinite product or quotient. The zeros that reach a multiplication or
  a division here are \<open>beta - 1\<close> at \<open>beta = 1\<close>, \<open>Math.log(1)\<close> and \<open>beta + 1\<close> at
  \<open>beta = -1\<close>, all \<open>+0\<close>.
\<close>

fun js_mul :: "jsnum \<Rightarrow> jsnum \<Rightarrow> jsnum" where
  "js_mul (Fin x) (Fin y) = binary64 (x * y)"
| "js_mul NaN _ = NaN"
| "js_mul _ NaN = NaN"
| "js_mul (Fin x) PInf = (if x = 0 then NaN else js_signed_inf (x < 0))"
| "js_mul (Fin x) NInf = (if x = 0 then NaN else js_signed_inf (0 < x))"
| "js_mul PInf (Fin y) = (if y = 0 then NaN else js_signed_inf (y < 0))"
| "js_mul NInf (Fin y) = (if y = 0 then NaN else js_signed_inf (0 < y))"
| "js_mul PInf PInf = PInf"
| "js_mul NInf NInf = PInf"
| "js_mul PInf NInf = NInf"
| "js_mul NInf PInf = NInf"

fun js_div :: "jsnum \<Rightarrow> jsnum \<Rightarrow> jsnum" where
  "js_div (Fin x) (Fin y) =
     (if y \<noteq> 0 then binary64 (x / y)
      else if x = 0 then NaN
      else js_signed_inf (x < 0))"
| "js_div NaN _ = NaN"
| "js_div _ NaN = NaN"
| "js_div (Fin x) _ = Fin 0"
| "js_div PInf (Fin y) = js_signed_inf (y < 0)"
| "js_div NInf (Fin y) = js_signed_inf (0 \<le> y)"
| "js_div _ _ = NaN"

fun js_floor :: "jsnum \<Rightarrow> jsnum" where
  "js_floor (Fin x) = Fin (of_int \<lfloor>x\<rfloor>)"
| "js_floor v = v"

text \<open>\<open>Math.round\<close> rounds half up: \<open>Math.round(2.5) = 3\<close>, \<open>Math.round(-2.5) = -2\<close>.\<close>

fun js_round :: "jsnum \<Rightarrow> jsnum" where
  "js_round (Fin x) = Fin (of_int \<lfloor>x + 1 / 2\<rfloor>)"
| "js_round v = v"

fun js_max :: "jsnum \<Rightarrow> jsnum \<Rightarrow> jsnum" where
  "js_max (Fin x) (Fin y) = Fin (max x y)"
| "js_max NaN _ = NaN"
| "js_max _ NaN = NaN"
| "js_max PInf _ = PInf"
| "js_max _ PInf = PInf"
| "js_max NInf v = v"
| "js_max v NInf = v"

fun js_min :: "jsnum \<Rightarrow> jsnum \<Rightarrow> jsnum" where
  "js_min (Fin x) (Fin y) = Fin (min x y)"
| "js_min NaN _ = NaN"
| "js_min _ NaN = NaN"
| "js_min NInf _ = NInf"
| "js_min _ NInf = NInf"
| "js_min PInf v = v"
| "js_min v PInf = v"

text \<open>The comparison \<open><\<close>: false as soon as one side is \<open>NaN\<close>.\<close>

fun js_lt :: "jsnum \<Rightarrow> jsnum \<Rightarrow> bool" where
  "js_lt (Fin x) (Fin y) = (x < y)"
| "js_lt NaN _ = False"
| "js_lt _ NaN = False"
| "js_lt _ NInf = False"
| "js_lt PInf _ = False"
| "js_lt NInf _ = True"
| "js_lt _ PInf = True"

text \<open>An integer of the program, as a number.\<close>

definition js_int :: "int \<Rightarrow> jsnum" where
  "js_int n = Fin (of_int n)"

subsection \<open>\<open>Math.log\<close> and \<open>Math.exp\<close>\<close>

text \<open>
  The language leaves the two functions to the implementation (it fixes
  \<open>Math.log(1) = +0\<close>, \<open>Math.log(0) = -Infinity\<close>, \<open>NaN\<close> below 0, and the values at the
  infinities). An implementation is a pair of functions on the finite numbers: a
  logarithm within a relative error of \<open>2\<^sup>-\<^sup>4\<^sup>0\<close> of the real one, and an exponential that
  is never negative and is within a relative error of \<open>2\<^sup>-\<^sup>4\<^sup>0\<close> of the real one on
  \<open>[-700, 700]\<close>, where its value is a normal number (further out it underflows or
  overflows, and nothing more is asked). The libraries in use stay within about
  \<open>2\<^sup>-\<^sup>5\<^sup>2\<close>. The bound makes the logarithm 0 at 1, positive above 1 and negative below.
\<close>

typedef libm =
  "{(l :: real \<Rightarrow> real, e :: real \<Rightarrow> real).
      (\<forall>x. 0 < x \<longrightarrow> \<bar>l x - ln x\<bar> \<le> \<bar>ln x\<bar> / 2 ^ 40)
      \<and> (\<forall>x. \<bar>x\<bar> \<le> 700 \<longrightarrow> \<bar>e x - exp x\<bar> \<le> exp x / 2 ^ 40)
      \<and> (\<forall>x. 0 \<le> e x)}"
  by (rule exI [of _ "(ln, exp)"]) simp

definition mlog :: "libm \<Rightarrow> real \<Rightarrow> real" where
  "mlog M = fst (Rep_libm M)"

definition mexp :: "libm \<Rightarrow> real \<Rightarrow> real" where
  "mexp M = snd (Rep_libm M)"

fun js_log :: "libm \<Rightarrow> jsnum \<Rightarrow> jsnum" where
  "js_log M (Fin x) = (if 0 < x then Fin (mlog M x) else if x = 0 then NInf else NaN)"
| "js_log M PInf = PInf"
| "js_log M NInf = NaN"
| "js_log M NaN = NaN"

fun js_exp :: "libm \<Rightarrow> jsnum \<Rightarrow> jsnum" where
  "js_exp M (Fin x) = (if 2 ^ 1024 \<le> mexp M x then PInf else Fin (mexp M x))"
| "js_exp M PInf = PInf"
| "js_exp M NInf = Fin 0"
| "js_exp M NaN = NaN"

subsection \<open>Constants and the slider mapping\<close>

definition EFFICIENCY_THRESHOLD :: real where
  "EFFICIENCY_THRESHOLD = 2"

text \<open>
  \<open>betaToSlider\<close> is called on \<open>beta\<close>, \<open>sliderToBeta\<close> on \<open>parseFloat\<close> of the slider's
  value, which may be any number.
\<close>

definition betaToSlider :: "libm \<Rightarrow> real \<Rightarrow> jsnum" where
  "betaToSlider M beta =
     (if beta \<le> js_literal (102 / 100) then Fin 0
      else if 30 \<le> beta then Fin 100
      else (let logBeta = js_log M (js_sub (Fin beta) (Fin 1));
                logMin = js_log M (Fin (js_literal (2 / 100)));
                logMax = js_log M (Fin 29)
            in js_mul (js_div (js_sub logBeta logMin) (js_sub logMax logMin)) (Fin 100)))"

definition sliderToBeta :: "libm \<Rightarrow> jsnum \<Rightarrow> jsnum" where
  "sliderToBeta M sliderValue =
     (let logMin = js_log M (Fin (js_literal (2 / 100)));
          logMax = js_log M (Fin 29);
          logBeta = js_add logMin (js_mul (js_div sliderValue (Fin 100)) (js_sub logMax logMin))
      in js_max (Fin (js_literal (102 / 100)))
           (js_min (Fin 30) (js_add (Fin 1) (js_exp M logBeta))))"

text \<open>
  The values of \<open>logMin\<close> and \<open>logMax\<close>, and of the difference \<open>logMax - logMin\<close>, which
  both functions compute.
\<close>

definition slider_logMin :: "libm \<Rightarrow> real" where
  "slider_logMin M = mlog M (js_literal (2 / 100))"

definition slider_logMax :: "libm \<Rightarrow> real" where
  "slider_logMax M = mlog M 29"

definition slider_logSpan :: "libm \<Rightarrow> real" where
  "slider_logSpan M = round64 (slider_logMax M - slider_logMin M)"

subsection \<open>Lookup-table functions\<close>

definition calculateLutLength :: "real \<Rightarrow> jsnum" where
  "calculateLutLength beta =
     (let baseLength =
            js_max (Fin 1) (js_floor (js_div (Fin 8) (js_sub (Fin beta) (Fin 1))))
      in if EFFICIENCY_THRESHOLD \<le> beta then Fin 1 else baseLength)"

definition getLutValue :: "libm \<Rightarrow> int \<Rightarrow> real \<Rightarrow> jsnum" where
  "getLutValue M d beta =
     (if EFFICIENCY_THRESHOLD \<le> beta \<and> 0 < d then Fin 1
      else js_min (js_int d)
             (js_floor (js_div (js_log M (js_int (d + 1))) (js_log M (Fin beta)))))"

subsection \<open>The calculator\<close>

text \<open>
  \<open>1 << bitWidth\<close>: the left operand as a 32-bit integer, the shift count taken modulo
  32, the result read as a signed 32-bit integer. The subtraction of 1 is on numbers and
  does not wrap.
\<close>

definition maxValue :: "int \<Rightarrow> int" where
  "maxValue bitWidth = sint (push_bit (nat (bitWidth mod 32)) (1 :: 32 word)) - 1"

record commonTerms =
  Za :: bool
  Zb :: bool
  Ua :: bool
  Ub :: bool
  E :: bool
  d :: int
  m :: int

text \<open>
  The memoised values of the component are functions of the state they read:
  \<open>commonTerms\<close> of the operands, \<open>result\<close> of the bit width, the operands, the
  operation and \<open>beta\<close>. The unclamped \<open>res\<close> starts at 0 and the \<open>switch\<close> assigns
  it once; an operation that matches no \<open>case\<close> takes \<open>default: res = 0\<close>.
\<close>

definition commonTerms :: "int \<Rightarrow> int \<Rightarrow> commonTerms" where
  "commonTerms a b =
     \<lparr>Za = (a = 0), Zb = (b = 0), Ua = (a = 1), Ub = (b = 1), E = (a = b),
      d = \<bar>a - b\<bar>, m = max a b\<rparr>"

definition result :: "libm \<Rightarrow> int \<Rightarrow> int \<Rightarrow> int \<Rightarrow> string \<Rightarrow> real \<Rightarrow> jsnum" where
  "result M bitWidth a b operation beta =
     (let t = commonTerms a b;
          res =
            (if operation = ''add'' then
               (if Za t \<or> Zb t then js_int (m t)
                else if d t < 8 then js_add (js_int (m t)) (getLutValue M (d t) beta)
                else js_int (m t))
             else if operation = ''sub'' then
               (if E t then Fin 0
                else if Za t \<or> Zb t then js_int (m t)
                else js_sub (js_int (m t)) (getLutValue M (d t) beta))
             else if operation = ''mul'' then
               (if Za t \<or> Zb t then Fin 0
                else if Ua t \<or> Ub t then js_int (m t)
                else js_int (a + b - 1))
             else if operation = ''div'' then
               (if Za t then Fin 0
                else if Zb t then js_int (maxValue bitWidth)
                else if E t then Fin 1
                else js_int (a - b + 1))
             else Fin 0)
      in js_min (js_max (Fin 0) res) (js_int (maxValue bitWidth)))"

subsection \<open>Derived metrics\<close>

text \<open>
  \<open>gateCount\<close> reads the bit width, \<open>beta\<close> and \<open>lutLength\<close>, which the component
  sets to \<open>calculateLutLength(beta)\<close>. The field \<open>div\<close> is written \<open>div'\<close>:
  \<open>div\<close> is an operator of HOL.
\<close>

record gateCount =
  base :: jsnum
  lut :: jsnum
  total :: jsnum
  shared :: jsnum
  add :: jsnum
  sub :: jsnum
  mul :: jsnum
  div' :: jsnum
  control :: jsnum

definition gateCount :: "int \<Rightarrow> real \<Rightarrow> gateCount" where
  "gateCount bitWidth beta =
     (let lutLength = calculateLutLength beta;
          sharedGates = js_round (js_int (bitWidth * 6 + 32));
          addGates = js_round (js_int (bitWidth * 3 + 16));
          subGates = js_round (js_int (bitWidth * 4 + 20));
          mulGates = js_round (js_int (bitWidth * 2 + 12));
          divGates = js_round (js_int (bitWidth * 2 + 12));
          decoderGates = Fin 12;
          muxGates = js_round (js_int (bitWidth * 6));
          baseGates =
            js_add (js_add (js_add (js_add (js_add (js_add sharedGates addGates) subGates)
              mulGates) divGates) decoderGates) muxGates;
          lutGates =
            (if EFFICIENCY_THRESHOLD \<le> beta then js_round (js_mul lutLength (Fin 4))
             else js_round (js_mul lutLength (Fin 12)));
          total = js_add baseGates lutGates
      in \<lparr>base = baseGates, lut = lutGates, total = total, shared = sharedGates,
          add = addGates, sub = subGates, mul = mulGates, div' = divGates,
          control = js_add decoderGates muxGates\<rparr>)"

text \<open>\<open>100 * (beta - 1) / (beta + 1)\<close>: the product first, then the quotient.\<close>

definition errorPercentage :: "real \<Rightarrow> jsnum" where
  "errorPercentage beta =
     js_div (js_mul (Fin 100) (js_sub (Fin beta) (Fin 1))) (js_add (Fin beta) (Fin 1))"

subsection \<open>The formulas of the specification\<close>

text \<open>
  What the specification says the calculator computes, in its own words: the closed
  enumeration of operations and the rule table with its final clamp (section 4.3), over
  the integers, with \<open>maxValue = 2\<^sup>w - 1\<close>. The table takes the value of
  \<open>lutValue(d, \<beta>)\<close> as an argument. These definitions follow the specification, not
  the source; the source's \<open>result\<close> is compared with them.
\<close>

datatype operation = Add | Sub | Mul | Div

fun operation_tag :: "operation \<Rightarrow> string" where
  "operation_tag Add = ''add''"
| "operation_tag Sub = ''sub''"
| "operation_tag Mul = ''mul''"
| "operation_tag Div = ''div''"

definition spec_result :: "int \<Rightarrow> int \<Rightarrow> int \<Rightarrow> operation \<Rightarrow> int \<Rightarrow> int" where
  "spec_result w a b operation lutValue =
     (let gap = \<bar>a - b\<bar>;
          hi = max a b;
          top = 2 ^ nat w - 1;
          res =
            (case operation of
               Add \<Rightarrow>
                 if a = 0 \<or> b = 0 then hi
                 else if gap < 8 then hi + lutValue
                 else hi
             | Sub \<Rightarrow>
                 if a = b then 0
                 else if a = 0 \<or> b = 0 then hi
                 else hi - lutValue
             | Mul \<Rightarrow>
                 if a = 0 \<or> b = 0 then 0
                 else if a = 1 \<or> b = 1 then hi
                 else a + b - 1
             | Div \<Rightarrow>
                 if a = 0 then 0
                 else if b = 0 then top
                 else if a = b then 1
                 else a - b + 1)
      in min (max 0 res) top)"

text \<open>
  The error percentage of the specification (section 4.4), \<open>100 \<sqdot> (\<beta> - 1) / (\<beta> + 1)\<close>
  over the reals, with which the source's \<open>errorPercentage\<close> is compared.
\<close>

definition spec_errorPercentage :: "real \<Rightarrow> real" where
  "spec_errorPercentage beta = 100 * (beta - 1) / (beta + 1)"

text \<open>
  The lookup value of the specification (section 4.2), with the real logarithm and the
  exact quotient.
\<close>

definition spec_lutValue :: "int \<Rightarrow> real \<Rightarrow> int" where
  "spec_lutValue gap beta =
     (if 2 \<le> beta \<and> 0 < gap then 1 else min gap \<lfloor>ln (of_int (gap + 1)) / ln beta\<rfloor>)"

text \<open>
  The binary64 number next above the cube root of 5, and a logarithm that differs from
  the real one at that number only, by less than the accuracy asked of \<open>Math.log\<close>.
\<close>

definition cube_root_5 :: real where
  "cube_root_5 = 1925261759066421 / 2 ^ 50"

definition short_log :: "real \<Rightarrow> real" where
  "short_log x = (if x = cube_root_5 then ln 5 / 3 else ln x)"

section \<open>Properties\<close>

subsection \<open>Rounding\<close>

lemma round_ties_even_error: "\<bar>of_int (round_ties_even y) - y\<bar> \<le> 1 / 2"
proof -
  define n where "n = \<lfloor>y\<rfloor>"
  have a: "of_int n \<le> y" "y < of_int n + 1"
    unfolding n_def by linarith+
  consider "y - of_int n < 1 / 2" | "1 / 2 < y - of_int n" | "y - of_int n = 1 / 2"
    by linarith
  then show ?thesis
  proof cases
    case 1
    then have "round_ties_even y = n"
      by (simp add: round_ties_even_def n_def)
    then show ?thesis using a 1 by simp
  next
    case 2
    then have "round_ties_even y = n + 1"
      by (simp add: round_ties_even_def n_def)
    then show ?thesis using a 2 by simp
  next
    case 3
    then have "round_ties_even y = n \<or> round_ties_even y = n + 1"
      by (simp add: round_ties_even_def n_def Let_def)
    then show ?thesis using a 3 by auto
  qed
qed

lemma round_ties_even_of_int: "round_ties_even (of_int k) = k"
  by (simp add: round_ties_even_def)

lemma round_ties_even_nonneg: "0 \<le> y \<Longrightarrow> 0 \<le> round_ties_even y"
  unfolding round_ties_even_def Let_def by auto

lemma round_ties_even_nonpos: "y \<le> 0 \<Longrightarrow> round_ties_even y \<le> 0"
proof -
  assume y: "y \<le> 0"
  have f: "\<lfloor>y\<rfloor> \<le> 0" using y by (simp add: floor_le_zero)
  show ?thesis
  proof (cases "y = 0")
    case True then show ?thesis by (simp add: round_ties_even_def)
  next
    case False
    then have "y < 0" using y by simp
    then have "\<lfloor>y\<rfloor> \<le> - 1" by (simp add: floor_le_iff)
    then show ?thesis unfolding round_ties_even_def Let_def 
      using \<open>y < 0\<close> by auto
  qed
qed

lemma ulp_pos: "0 < ulp x"
  by (simp add: ulp_def)

lemma round64_error: "\<bar>round64 x - x\<bar> \<le> ulp x / 2"
proof -
  have "round64 x - x = (of_int (round_ties_even (x / ulp x)) - x / ulp x) * ulp x"
    using ulp_pos [of x] by (simp add: round64_def field_simps)
  then have "\<bar>round64 x - x\<bar> = \<bar>of_int (round_ties_even (x / ulp x)) - x / ulp x\<bar> * ulp x"
    using ulp_pos [of x] by (simp add: abs_mult)
  also have "\<dots> \<le> 1 / 2 * ulp x"
    by (rule mult_right_mono [OF round_ties_even_error]) (simp add: ulp_pos less_imp_le)
  finally show ?thesis by simp
qed

lemma round64_zero: "round64 0 = 0"
  by (simp add: round64_def round_ties_even_def)

lemma round64_nonneg: "0 \<le> x \<Longrightarrow> 0 \<le> round64 x"
  unfolding round64_def using ulp_pos [of x]
  by (simp add: round_ties_even_nonneg less_imp_le)

lemma round64_nonpos: "x \<le> 0 \<Longrightarrow> round64 x \<le> 0"
  unfolding round64_def using ulp_pos [of x]
  by (simp add: round_ties_even_nonpos mult_le_0_iff divide_le_0_iff less_imp_le)

lemma ulp_le:
  assumes "x \<noteq> 0"
  shows "ulp x \<le> \<bar>x\<bar> / 2 ^ 52 + 1 / 2 ^ 1074"
proof (cases "- 1022 \<le> \<lfloor>log 2 \<bar>x\<bar>\<rfloor>")
  case True
  then have b: "binade x = \<lfloor>log 2 \<bar>x\<bar>\<rfloor>" by (simp add: binade_def)
  have "of_int \<lfloor>log 2 \<bar>x\<bar>\<rfloor> \<le> log 2 \<bar>x\<bar>" by simp
  then have "2 powr of_int \<lfloor>log 2 \<bar>x\<bar>\<rfloor> \<le> 2 powr log 2 \<bar>x\<bar>"
    by (simp only: powr_le_cancel_iff) 
  also have "\<dots> = \<bar>x\<bar>" using assms by simp
  finally have "2 powr of_int (binade x) \<le> \<bar>x\<bar>" by (simp add: b)
  moreover have "ulp x = 2 powr of_int (binade x) / 2 ^ 52"
    by (simp add: ulp_def powr_diff)
  ultimately have "ulp x \<le> \<bar>x\<bar> / 2 ^ 52" by (simp add: divide_right_mono)
  moreover have "(0 :: real) \<le> 1 / 2 ^ 1074" by simp
  ultimately show ?thesis by linarith
next
  case False
  then have b: "binade x = - 1022" by (simp add: binade_def)
  have "ulp x = 2 powr (- 1074)" by (simp add: ulp_def b)
  also have "\<dots> = 1 / 2 ^ 1074"
    by (simp add: powr_minus_divide)
  finally show ?thesis by simp
qed

lemma round64_approx: "\<bar>round64 x - x\<bar> \<le> \<bar>x\<bar> / 2 ^ 53 + 1 / 2 ^ 1075"
proof (cases "x = 0")
  case True then show ?thesis by (simp add: round64_zero)
next
  case False
  have "\<bar>round64 x - x\<bar> \<le> ulp x / 2" by (rule round64_error)
  also have "\<dots> \<le> (\<bar>x\<bar> / 2 ^ 52 + 1 / 2 ^ 1074) / 2"
    using ulp_le [OF False] by simp
  also have "\<dots> = \<bar>x\<bar> / 2 ^ 53 + 1 / 2 ^ 1075" by simp
  finally show ?thesis .
qed


lemma binary64_fin:
  assumes "\<bar>x\<bar> \<le> 2 ^ 1023"
  shows "binary64 x = Fin (round64 x)"
proof -
  have "\<bar>round64 x\<bar> \<le> \<bar>x\<bar> + \<bar>round64 x - x\<bar>" by linarith
  also have "\<dots> \<le> \<bar>x\<bar> + (\<bar>x\<bar> / 2 ^ 53 + 1 / 2 ^ 1075)"
    using round64_approx [of x] by linarith
  also have "\<dots> \<le> 2 ^ 1023 + (2 ^ 1023 / 2 ^ 53 + 1 / 2 ^ 1075)"
    using assms by (simp add: add_mono divide_right_mono)
  also have "\<dots> < 2 ^ 1024" by simp
  finally show ?thesis by (simp add: binary64_def)
qed

lemma binary64_cases:
  obtains y where "binary64 x = Fin y" "y = round64 x" | "binary64 x = PInf" "0 < x"
  | "binary64 x = NInf" "x < 0"
proof (cases "2 ^ 1024 \<le> \<bar>round64 x\<bar>")
  case False
  then have "binary64 x = Fin (round64 x)" by (simp add: binary64_def)
  then show ?thesis using that(1) by simp
next
  case True
  show ?thesis
  proof (cases "round64 x < 0")
    case neg: True
    have "x < 0"
    proof (rule ccontr)
      assume "\<not> x < 0"
      then have "0 \<le> round64 x" by (simp add: round64_nonneg)
      then show False using neg by simp
    qed
    moreover have "binary64 x = NInf"
      using True neg by (simp add: binary64_def js_signed_inf_def)
    ultimately show ?thesis using that(3) by simp
  next
    case pos: False
    have "(0 :: real) < 2 ^ 1024" by simp
    then have "0 < round64 x" using True pos by linarith
    have "0 < x"
    proof (rule ccontr)
      assume "\<not> 0 < x"
      then have "round64 x \<le> 0" by (simp add: round64_nonpos)
      then show False using \<open>0 < round64 x\<close> by simp
    qed
    moreover have "binary64 x = PInf"
      using True pos by (simp add: binary64_def js_signed_inf_def)
    ultimately show ?thesis using that(2) by simp
  qed
qed

lemma two_powr_of_int_nonneg:
  assumes "0 \<le> e"
  shows "2 powr (of_int e) = (2 :: real) ^ nat e"
  using assms by (simp add: powr_realpow [symmetric])

lemma round64_of_int:
  assumes "\<bar>n\<bar> < 2 ^ 53"
  shows "round64 (of_int n) = of_int n"
proof (cases "n = 0")
  case True then show ?thesis by (simp add: round64_zero)
next
  case False
  define e where "e = \<lfloor>log 2 \<bar>of_int n :: real\<bar>\<rfloor>"
  have "1 \<le> \<bar>n\<bar>" using False by simp
  then have "(of_int 1 :: real) \<le> of_int \<bar>n\<bar>" by (simp only: of_int_le_iff)
  then have n1: "1 \<le> \<bar>of_int n :: real\<bar>" by simp
  have "(of_int \<bar>n\<bar> :: real) < of_int (2 ^ 53)"
    using assms by (simp only: of_int_less_iff)
  then have n2: "\<bar>of_int n :: real\<bar> < 2 ^ 53" by simp
  have "0 \<le> log 2 \<bar>of_int n :: real\<bar>" using n1 by simp
  then have e0: "0 \<le> e" by (simp add: e_def)
  have "log 2 \<bar>of_int n :: real\<bar> < 53"
    using n1 n2 by (simp add: log_less_iff powr_realpow [symmetric])
  then have e1: "e \<le> 52" by (simp add: e_def floor_less_iff)
  have b: "binade (of_int n) = e" using e0 by (simp add: binade_def e_def)
  define j where "j = nat (52 - e)"
  have "of_int e - 52 = - real j" using e1 by (simp add: j_def)
  then have u: "ulp (of_int n) = 1 / 2 ^ j"
    by (simp add: ulp_def b powr_minus_divide powr_realpow)
  have "of_int n / ulp (of_int n) = of_int (n * 2 ^ j)"
    by (simp add: u)
  then have "round_ties_even (of_int n / ulp (of_int n)) = n * 2 ^ j"
    by (simp only: round_ties_even_of_int)
  then show ?thesis
    by (simp add: round64_def u)
qed

lemma binary64_of_int:
  assumes "\<bar>n\<bar> < 2 ^ 53"
  shows "binary64 (of_int n) = Fin (of_int n)"
proof -
  have "(of_int \<bar>n\<bar> :: real) < of_int (2 ^ 53)"
    using assms by (simp only: of_int_less_iff)
  then have "\<bar>of_int n :: real\<bar> < 2 ^ 53" by simp
  moreover have "(2 :: real) ^ 53 \<le> 2 ^ 1023" by simp
  ultimately have "\<bar>of_int n :: real\<bar> \<le> 2 ^ 1023" by linarith
  then show ?thesis
    by (simp add: binary64_fin round64_of_int [OF assms])
qed


lemma binade_eq:
  assumes "2 powr (of_int e) \<le> \<bar>x\<bar>" "\<bar>x\<bar> < 2 powr (of_int e + 1)" "- 1022 \<le> e"
  shows "binade x = e"
proof -
  have "(0 :: real) < 2 powr (of_int e)" by simp
  then have x: "0 < \<bar>x\<bar>" using assms(1) by linarith
  have "\<lfloor>log 2 \<bar>x\<bar>\<rfloor> = e"
  proof (rule floor_unique)
    show "of_int e \<le> log 2 \<bar>x\<bar>"
      using assms(1) x by (simp add: le_log_iff)
    show "log 2 \<bar>x\<bar> < of_int e + 1"
      using assms(2) x by (simp add: log_less_iff)
  qed
  then show ?thesis using assms(3) by (simp add: binade_def)
qed

lemma round64_binade_up:
  assumes "2 ^ n \<le> \<bar>x\<bar>" "\<bar>x\<bar> < 2 ^ Suc n"
  shows "round64 x = of_int (round_ties_even (x * 2 ^ 52 / 2 ^ n)) * 2 ^ n / 2 ^ 52"
proof -
  have p: "2 powr (of_int (int n)) = (2 :: real) ^ n"
    by (simp add: powr_realpow)
  have p1: "2 powr (of_int (int n) + 1) = (2 :: real) ^ Suc n"
    by (simp add: powr_add powr_realpow)
  have "binade x = int n"
  proof (rule binade_eq)
    show "2 powr (of_int (int n)) \<le> \<bar>x\<bar>" using assms(1) by (simp only: p)
    show "\<bar>x\<bar> < 2 powr (of_int (int n) + 1)" using assms(2) by (simp only: p1)
    show "- 1022 \<le> int n" by simp
  qed
  then have u: "ulp x = 2 ^ n / 2 ^ 52"
    by (simp add: ulp_def powr_diff powr_realpow)
  show ?thesis
    unfolding round64_def u by simp
qed

lemma round64_binade_down:
  assumes "1 \<le> \<bar>x\<bar> * 2 ^ k" "\<bar>x\<bar> * 2 ^ k < 2" "k \<le> 1022"
  shows "round64 x = of_int (round_ties_even (x * 2 ^ (52 + k))) / 2 ^ (52 + k)"
proof -
  have p: "2 powr (of_int (- int k)) = 1 / (2 :: real) ^ k"
    by (simp add: powr_minus_divide powr_realpow)
  have p1: "2 powr (of_int (- int k) + 1) = 2 * (1 / (2 :: real) ^ k)"
    by (subst powr_add) (simp add: powr_minus_divide powr_realpow)
  have lo: "1 / (2 :: real) ^ k \<le> \<bar>x\<bar>"
    using assms(1) by (simp add: field_simps)
  have up: "\<bar>x\<bar> < 2 * (1 / (2 :: real) ^ k)"
    using assms(2) by (simp add: field_simps)
  have "binade x = - int k"
  proof (rule binade_eq)
    show "2 powr (of_int (- int k)) \<le> \<bar>x\<bar>" using lo by (simp only: p)
    show "\<bar>x\<bar> < 2 powr (of_int (- int k) + 1)" using up by (simp only: p1)
    show "- 1022 \<le> - int k" using assms(3) by simp
  qed
  then have u: "ulp x = 1 / (2 :: real) ^ (52 + k)"
    by (simp add: ulp_def powr_diff powr_minus_divide powr_realpow power_add field_simps)
  show ?thesis
    unfolding round64_def u by simp
qed

subsection \<open>The logarithm and the exponential\<close>

lemma libm_props:
  "(\<forall>x. 0 < x \<longrightarrow> \<bar>mlog M x - ln x\<bar> \<le> \<bar>ln x\<bar> / 2 ^ 40)
   \<and> (\<forall>x. \<bar>x\<bar> \<le> 700 \<longrightarrow> \<bar>mexp M x - exp x\<bar> \<le> exp x / 2 ^ 40)
   \<and> (\<forall>x. 0 \<le> mexp M x)"
  using Rep_libm [of M] by (auto simp: mlog_def mexp_def split: prod.splits)

lemma mlog_accuracy: "0 < x \<Longrightarrow> \<bar>mlog M x - ln x\<bar> \<le> \<bar>ln x\<bar> / 2 ^ 40"
  using libm_props [of M] by blast

lemma mexp_accuracy: "\<bar>x\<bar> \<le> 700 \<Longrightarrow> \<bar>mexp M x - exp x\<bar> \<le> exp x / 2 ^ 40"
  using libm_props [of M] by blast

lemma mexp_nonneg: "0 \<le> mexp M x"
  using libm_props [of M] by blast

lemma mlog_one: "mlog M 1 = 0"
  using mlog_accuracy [of 1 M] by simp

lemma mlog_pos:
  assumes "1 < x"
  shows "0 < mlog M x"
proof -
  have l: "0 < ln x" using assms by simp
  have "\<bar>mlog M x - ln x\<bar> \<le> ln x / 2 ^ 40"
    using mlog_accuracy [of x M] assms l by simp
  moreover have "ln x / 2 ^ 40 < ln x" using l by simp
  ultimately show ?thesis by linarith
qed

subsection \<open>Integers\<close>

lemma binary64_0: "binary64 0 = Fin 0"
  using binary64_of_int [of 0] by simp

lemma binary64_1: "binary64 1 = Fin 1"
  using binary64_of_int [of 1] by simp

lemma binary64_numeral:
  "(numeral k :: int) < 2 ^ 53 \<Longrightarrow> binary64 (numeral k) = Fin (numeral k)"
  using binary64_of_int [of "numeral k"] by simp

lemma binary64_neg_numeral:
  "(numeral k :: int) < 2 ^ 53 \<Longrightarrow> binary64 (- numeral k) = Fin (- numeral k)"
  using binary64_of_int [of "- numeral k"] by simp

lemma js_add_int:
  assumes "\<bar>x + y\<bar> < 2 ^ 53"
  shows "js_add (js_int x) (js_int y) = js_int (x + y)"
  using binary64_of_int [OF assms] by (simp add: js_int_def)

lemma js_sub_int:
  assumes "\<bar>x - y\<bar> < 2 ^ 53"
  shows "js_sub (js_int x) (js_int y) = js_int (x - y)"
  using binary64_of_int [OF assms] by (simp add: js_int_def js_sub_def)

subsection \<open>The gate count\<close>

text \<open>
  Claim C9. For bit width 4 and \<open>beta = 2.5\<close> the gate-count breakdown is shared 56,
  add 28, sub 36, mul 20, div 20, control 36, lut 4, and the total is 200.
\<close>

theorem gateCount_4_simplified:
  "gateCount 4 (5 / 2) =
     \<lparr>base = Fin 196, lut = Fin 4, total = Fin 200, shared = Fin 56, add = Fin 28,
      sub = Fin 36, mul = Fin 20, div' = Fin 20, control = Fin 36\<rparr>"
  by (simp add: gateCount_def calculateLutLength_def EFFICIENCY_THRESHOLD_def js_int_def
      Let_def binary64_numeral)

subsection \<open>The lookup-table functions at \<open>beta = 1\<close>\<close>

text \<open>
  Claim C4, as stated: at \<open>beta = 1\<close> both \<open>calculateLutLength\<close> and \<open>getLutValue\<close>
  fail fast with an error instead of producing \<open>NaN\<close> or \<open>Infinity\<close>. Neither function
  has a guard: \<open>calculateLutLength(1)\<close> is \<open>Math.max(1, Math.floor(8 / 0)) = Infinity\<close>
  and \<open>getLutValue(0, 1)\<close> is \<open>Math.min(0, Math.floor(0 / 0)) = NaN\<close>.
\<close>

theorem lut_functions_at_beta_1:
  "\<forall>M. calculateLutLength 1 = PInf \<and> getLutValue M 0 1 = NaN"
  by (simp add: calculateLutLength_def getLutValue_def EFFICIENCY_THRESHOLD_def
      js_signed_inf_def js_int_def js_sub_def binary64_0 mlog_one binary64_numeral)

text \<open>
  Claim C4, amended: at \<open>beta = 1\<close> neither function fails; \<open>calculateLutLength\<close>
  returns \<open>Infinity\<close>, and \<open>getLutValue\<close> returns \<open>NaN\<close> for the gap 0 and the gap
  itself for every gap \<open>> 0\<close> (\<open>Math.min(d, Infinity)\<close>). The value \<open>beta = 1\<close> is kept
  away only by the caller: \<open>sliderToBeta\<close> clamps to \<open>[1.02, 30]\<close>
  (\<open>sliderToBeta_range\<close>).
\<close>

theorem lut_functions_beta_1_values:
  "calculateLutLength 1 = PInf
   \<and> getLutValue M 0 1 = NaN
   \<and> (\<forall>gap. 0 < gap \<longrightarrow> getLutValue M gap 1 = js_int gap)"
proof -
  have "getLutValue M gap 1 = js_int gap" if "0 < gap" for gap
  proof -
    have "0 < mlog M (of_int (gap + 1))"
      by (rule mlog_pos) (use that in simp)
    then show ?thesis
      using that
      by (simp add: getLutValue_def EFFICIENCY_THRESHOLD_def js_signed_inf_def js_int_def
          mlog_one)
  qed
  then show ?thesis
    by (simp add: calculateLutLength_def getLutValue_def EFFICIENCY_THRESHOLD_def
      js_signed_inf_def js_int_def js_sub_def binary64_0 mlog_one)
qed

theorem lut_functions_beta_1_values_witness:
  "\<forall>M. getLutValue M 3 1 = js_int 3"
  using lut_functions_beta_1_values by simp


subsection \<open>The calculator against the rule table\<close>

lemma maxValue_small:
  assumes "0 \<le> w" "w \<le> 30"
  shows "maxValue w = 2 ^ nat w - 1"
proof -
  have n: "nat w < 31" using assms by simp
  have w32: "w mod 32 = w" using assms by simp
  have p: "(push_bit (nat w) (1 :: 32 word)) = word_of_int (2 ^ nat w)"
    by simp
  have "sint (word_of_int (2 ^ nat w) :: 32 word) = signed_take_bit 31 (2 ^ nat w :: int)"
    unfolding sint_sbintrunc' by simp
  then have "sint (push_bit (nat w) (1 :: 32 word)) = signed_take_bit 31 (2 ^ nat w :: int)"
    unfolding p .
  also have "\<dots> = 2 ^ nat w"
  proof (rule signed_take_bit_int_eq_self)
    have "- (2 ^ 31) \<le> (0 :: int)" by simp
    moreover have "(0 :: int) \<le> 2 ^ nat w" by simp
    ultimately show "- (2 ^ 31) \<le> (2 ^ nat w :: int)" by (rule order_trans)
    show "(2 ^ nat w :: int) < 2 ^ 31" by (rule power_strict_increasing) (use n in simp_all)
  qed
  finally show ?thesis by (simp add: maxValue_def w32)
qed

lemma getLutValue_int:
  assumes "1 < beta" "0 \<le> gap"
  obtains L where "getLutValue M gap beta = js_int L" "0 \<le> L" "L \<le> gap"
proof (cases "2 \<le> beta \<and> 0 < gap")
  case True
  then have "getLutValue M gap beta = js_int 1"
    by (simp add: getLutValue_def EFFICIENCY_THRESHOLD_def js_int_def)
  then show ?thesis using that [of 1] True by simp
next
  case False
  define a where "a = mlog M (of_int (gap + 1))"
  define b where "b = mlog M beta"
  have b: "0 < b" unfolding b_def by (rule mlog_pos) (rule assms(1))
  have a: "0 \<le> a"
  proof (cases "gap = 0")
    case True then show ?thesis by (simp add: a_def mlog_one)
  next
    case False
    then have "1 < (of_int (gap + 1) :: real)" using assms(2) by simp
    then show ?thesis unfolding a_def using mlog_pos [of "of_int (gap + 1)" M] by simp
  qed
  have q: "0 \<le> a / b" using a b by simp
  have c: "\<not> (EFFICIENCY_THRESHOLD \<le> beta \<and> 0 < gap)"
    using False by (simp add: EFFICIENCY_THRESHOLD_def)
  have la: "js_log M (js_int (gap + 1)) = Fin a"
    using assms(2) by (simp add: js_int_def a_def)
  have lb: "js_log M (Fin beta) = Fin b"
    using assms(1) by (simp add: b_def)
  have dv: "js_div (Fin a) (Fin b) = binary64 (a / b)"
    using b by simp
  have g: "getLutValue M gap beta = js_min (js_int gap) (js_floor (binary64 (a / b)))"
    unfolding getLutValue_def if_not_P [OF c] la lb dv ..
  show ?thesis
  proof (cases "a / b" rule: binary64_cases)
    case (1 y)
    then have y: "0 \<le> y" using q by (simp add: round64_nonneg)
    have "getLutValue M gap beta = js_int (min gap \<lfloor>y\<rfloor>)"
      by (simp add: g 1 js_int_def)
    moreover have "0 \<le> min gap \<lfloor>y\<rfloor>" using y assms(2) by simp
    ultimately show ?thesis using that [of "min gap \<lfloor>y\<rfloor>"] by simp
  next
    case 2
    then have "getLutValue M gap beta = js_int gap"
      by (simp add: g js_int_def)
    then show ?thesis using that [of gap] assms(2) by simp
  next
    case 3
    then show ?thesis using q by simp
  qed
qed

lemma js_clamp_int:
  "js_min (js_max (js_int 0) (js_int x)) (js_int hi) = js_int (min (max 0 x) hi)"
  by (simp add: js_int_def min_def max_def)

lemma js_int_0: "Fin 0 = js_int 0"
  by (simp add: js_int_def)

lemma js_int_1: "Fin 1 = js_int 1"
  by (simp add: js_int_def)

lemma result_table:
  assumes "1 < beta" "0 \<le> a" "a < 2 ^ 52" "0 \<le> b" "b < 2 ^ 52"
  obtains L where "getLutValue M \<bar>a - b\<bar> beta = js_int L" "0 \<le> L" "L \<le> \<bar>a - b\<bar>"
    "result M w a b (operation_tag op) beta =
       js_min (js_max (js_int 0)
         (js_int (case op of
               Add \<Rightarrow>
                 if a = 0 \<or> b = 0 then max a b
                 else if \<bar>a - b\<bar> < 8 then max a b + L
                 else max a b
             | Sub \<Rightarrow>
                 if a = b then 0
                 else if a = 0 \<or> b = 0 then max a b
                 else max a b - L
             | Mul \<Rightarrow>
                 if a = 0 \<or> b = 0 then 0
                 else if a = 1 \<or> b = 1 then max a b
                 else a + b - 1
             | Div \<Rightarrow>
                 if a = 0 then 0
                 else if b = 0 then maxValue w
                 else if a = b then 1
                 else a - b + 1))) (js_int (maxValue w))"
proof -
  define gap where "gap = \<bar>a - b\<bar>"
  define hi where "hi = max a b"
  have gap0: "0 \<le> gap" by (simp add: gap_def)
  obtain L where L: "getLutValue M gap beta = js_int L" "0 \<le> L" "L \<le> gap"
    using getLutValue_int [OF assms(1) gap0] by blast
  have t: "commonTerms a b =
      \<lparr>Za = (a = 0), Zb = (b = 0), Ua = (a = 1), Ub = (b = 1), E = (a = b),
       d = gap, m = hi\<rparr>"
    by (simp add: commonTerms_def gap_def hi_def)
  have hi: "0 \<le> hi" "hi < 2 ^ 52" using assms by (simp_all add: hi_def)
  have gap1: "gap < 2 ^ 52" using assms by (simp add: gap_def abs_if)
  have plus: "js_add (js_int hi) (js_int L) = js_int (hi + L)"
    by (rule js_add_int) (use hi L gap1 in simp)
  have minus: "js_sub (js_int hi) (js_int L) = js_int (hi - L)"
    by (rule js_sub_int) (use hi L gap1 in simp)
  have "result M w a b (operation_tag op) beta =
       js_min (js_max (js_int 0)
         (js_int (case op of
               Add \<Rightarrow>
                 if a = 0 \<or> b = 0 then hi
                 else if gap < 8 then hi + L
                 else hi
             | Sub \<Rightarrow>
                 if a = b then 0
                 else if a = 0 \<or> b = 0 then hi
                 else hi - L
             | Mul \<Rightarrow>
                 if a = 0 \<or> b = 0 then 0
                 else if a = 1 \<or> b = 1 then hi
                 else a + b - 1
             | Div \<Rightarrow>
                 if a = 0 then 0
                 else if b = 0 then maxValue w
                 else if a = b then 1
                 else a - b + 1))) (js_int (maxValue w))"
    unfolding result_def Let_def t
    by (cases op) (simp_all add: L plus minus js_int_0 js_int_1)
  then show ?thesis
    using that [of L] L unfolding gap_def hi_def by blast
qed


lemma operand_small:
  assumes "1 \<le> w" "w \<le> 30" "a \<le> 2 ^ nat w - 1"
  shows "a < (2 :: int) ^ 52"
proof -
  have "nat w \<le> 30" using assms by simp
  then have "(2 :: int) ^ nat w \<le> 2 ^ 30" by (rule power_increasing) simp
  then show ?thesis using assms(3) by simp
qed

text \<open>
  Claim C1, as stated, for every bit width \<open>w \<ge> 1\<close>: the calculator's result is the
  rule table's. It fails from \<open>w = 31\<close> on, where \<open>1 << bitWidth\<close> is no longer
  \<open>2\<^sup>w\<close>: at \<open>w = 32\<close> the shift count is 0, \<open>maxValue\<close> is 0 and every result is
  clamped to 0, while the table gives \<open>5 + 1 = 6\<close> for \<open>5 + 3\<close> at \<open>beta = 2.5\<close>.
\<close>

theorem result_rule_table_fails_at_32:
  "\<forall>M. (1 :: int) \<le> 32 \<and> (1 :: real) < 5 / 2 \<and> (0 :: int) \<le> 5 \<and> (5 :: int) \<le> 2 ^ nat 32 - 1
   \<and> (0 :: int) \<le> 3 \<and> (3 :: int) \<le> 2 ^ nat 32 - 1
   \<and> getLutValue M \<bar>5 - 3\<bar> (5 / 2) = js_int 1
   \<and> result M 32 5 3 (operation_tag Add) (5 / 2) = js_int 0
   \<and> spec_result 32 5 3 Add 1 = 6
   \<and> result M 32 5 3 (operation_tag Add) (5 / 2) \<noteq> js_int (spec_result 32 5 3 Add 1)"
  by (simp add: result_def spec_result_def commonTerms_def maxValue_def getLutValue_def
      EFFICIENCY_THRESHOLD_def js_int_def binary64_numeral)

text \<open>
  Claim C1, amended to the bit widths 1 to 30 (the control of the source offers 2 to
  12): for every \<open>beta > 1\<close> and all operands in \<open>[0, 2\<^sup>w - 1]\<close> the calculator's
  result is the integer that the rule table of the specification gives, clamp included,
  where \<open>lutValue(d, \<beta>)\<close> is the integer that \<open>getLutValue\<close> returns.
\<close>

theorem result_refines_rule_table:
  assumes "1 \<le> w" "w \<le> 30" "1 < beta"
    and "0 \<le> a" "a \<le> 2 ^ nat w - 1" "0 \<le> b" "b \<le> 2 ^ nat w - 1"
  shows "\<exists>L. getLutValue M \<bar>a - b\<bar> beta = js_int L
           \<and> result M w a b (operation_tag op) beta = js_int (spec_result w a b op L)"
proof -
  have mv: "maxValue w = 2 ^ nat w - 1"
    using assms by (simp add: maxValue_small)
  have a: "a < 2 ^ 52" using assms(1,2,5) by (rule operand_small)
  have b: "b < 2 ^ 52" using assms(1,2,7) by (rule operand_small)
  obtain L where L: "getLutValue M \<bar>a - b\<bar> beta = js_int L"
    and r: "result M w a b (operation_tag op) beta =
       js_min (js_max (js_int 0)
         (js_int (case op of
               Add \<Rightarrow>
                 if a = 0 \<or> b = 0 then max a b
                 else if \<bar>a - b\<bar> < 8 then max a b + L
                 else max a b
             | Sub \<Rightarrow>
                 if a = b then 0
                 else if a = 0 \<or> b = 0 then max a b
                 else max a b - L
             | Mul \<Rightarrow>
                 if a = 0 \<or> b = 0 then 0
                 else if a = 1 \<or> b = 1 then max a b
                 else a + b - 1
             | Div \<Rightarrow>
                 if a = 0 then 0
                 else if b = 0 then maxValue w
                 else if a = b then 1
                 else a - b + 1))) (js_int (maxValue w))"
    using result_table [OF assms(3,4) a assms(6) b, of M w op] by blast
  have "result M w a b (operation_tag op) beta = js_int (spec_result w a b op L)"
    unfolding r js_clamp_int spec_result_def Let_def mv ..
  with L show ?thesis by blast
qed

theorem result_refines_rule_table_witness:
  "\<forall>M. \<exists>L. getLutValue M \<bar>5 - 3\<bar> (5 / 2) = js_int L
       \<and> result M 4 5 3 (operation_tag Add) (5 / 2) = js_int (spec_result 4 5 3 Add L)"
  using result_refines_rule_table [where w = 4 and a = 5 and b = 3 and op = Add
      and beta = "5 / 2"]
  by simp

subsection \<open>The range of the result\<close>

lemma result_4_5_3: "result M 4 5 3 (operation_tag Add) (5 / 2) = Fin 6"
  by (simp add: result_def commonTerms_def maxValue_def getLutValue_def
      EFFICIENCY_THRESHOLD_def js_int_def binary64_numeral)

text \<open>
  Claim C2, as stated, for every bit width \<open>w \<ge> 1\<close>: the result lies in
  \<open>[0, 2\<^sup>w - 1]\<close>. At \<open>w = 31\<close> the shift \<open>1 << 31\<close> is the negative 32-bit integer
  \<open>-2147483648\<close>, \<open>maxValue\<close> is \<open>-2147483649\<close>, and the final \<open>Math.min\<close> makes
  every result that negative number: \<open>1 + 0\<close> gives \<open>-2147483649 < 0\<close>.
\<close>

theorem result_below_zero_at_31:
  "\<forall>M. (1 :: int) \<le> 31 \<and> (1 :: real) < 5 / 2 \<and> (0 :: int) \<le> 1 \<and> (1 :: int) \<le> 2 ^ nat 31 - 1
   \<and> (0 :: int) \<le> 0 \<and> (0 :: int) \<le> 2 ^ nat 31 - 1
   \<and> result M 31 1 0 (operation_tag Add) (5 / 2) = js_int (- 2147483649)
   \<and> js_lt (result M 31 1 0 (operation_tag Add) (5 / 2)) (js_int 0)"
  by (simp add: result_def commonTerms_def maxValue_def js_int_def)

text \<open>
  Claim C2, amended to the bit widths 1 to 30: for every \<open>beta > 1\<close>, all operands in
  \<open>[0, 2\<^sup>w - 1]\<close> and each of the four operations, the result is an integer of the
  closed interval \<open>[0, 2\<^sup>w - 1]\<close>, whatever the unclamped formula gives.
\<close>

theorem result_in_range:
  assumes "1 \<le> w" "w \<le> 30" "1 < beta"
    and "0 \<le> a" "a \<le> 2 ^ nat w - 1" "0 \<le> b" "b \<le> 2 ^ nat w - 1"
  shows "\<exists>r. result M w a b (operation_tag op) beta = js_int r \<and> 0 \<le> r \<and> r \<le> 2 ^ nat w - 1"
proof -
  have mv: "maxValue w = 2 ^ nat w - 1"
    using assms by (simp add: maxValue_small)
  have a: "a < 2 ^ 52" using assms(1,2,5) by (rule operand_small)
  have b: "b < 2 ^ 52" using assms(1,2,7) by (rule operand_small)
  obtain x where x: "result M w a b (operation_tag op) beta =
      js_min (js_max (js_int 0) (js_int x)) (js_int (maxValue w))"
    using result_table [OF assms(3,4) a assms(6) b, of M w op] by blast
  have top: "(0 :: int) \<le> 2 ^ nat w - 1" by simp
  have "result M w a b (operation_tag op) beta = js_int (min (max 0 x) (2 ^ nat w - 1))"
    by (simp add: x mv js_clamp_int)
  moreover have "0 \<le> min (max 0 x) (2 ^ nat w - 1 :: int)"
    using top by simp
  moreover have "min (max 0 x) (2 ^ nat w - 1 :: int) \<le> 2 ^ nat w - 1"
    by simp
  ultimately show ?thesis by blast
qed

theorem result_in_range_witness:
  "\<forall>M. \<exists>r. result M 4 9 9 (operation_tag Mul) (3 / 2) = js_int r \<and> 0 \<le> r \<and> r \<le> 2 ^ nat 4 - 1"
  using result_in_range [where w = 4 and a = 9 and b = 9 and op = Mul and beta = "3 / 2"]
  by simp

subsection \<open>Unknown operations\<close>

text \<open>
  Claim C3, as stated: an operation outside \<open>{add, sub, mul, div}\<close> is rejected as a
  usage error and is not defaulted to 0. The \<open>switch\<close> of the source has the branch
  \<open>default: res = 0\<close> and nothing in the function raises: for the operation \<open>mod\<close>
  the calculator returns the number 0.
\<close>

theorem result_default_zero:
  "\<forall>M. result M 8 7 2 ''mod'' (3 / 2) = Fin 0"
  by (simp add: result_def commonTerms_def maxValue_def js_int_def)

text \<open>
  Claim C3, amended: for every operation string outside \<open>{add, sub, mul, div}\<close> the
  calculator rejects nothing; it takes the default branch and returns 0, for every bit
  width from 1 to 30, all operands and every \<open>beta\<close>.
\<close>

theorem result_unknown_operation:
  assumes "operation \<notin> {''add'', ''sub'', ''mul'', ''div''}" "1 \<le> w" "w \<le> 30"
  shows "result M w a b operation beta = Fin 0"
proof -
  have mv: "maxValue w = 2 ^ nat w - 1"
    using assms by (simp add: maxValue_small)
  have top: "(0 :: int) \<le> 2 ^ nat w - 1" by simp
  show ?thesis
    using assms(1) top by (simp add: result_def Let_def mv js_int_def)
qed

theorem result_unknown_operation_witness:
  "\<forall>M. result M 4 5 3 ''pow'' (5 / 2) = Fin 0"
  using result_unknown_operation [where operation = "''pow''" and w = 4 and a = 5 and b = 3
      and beta = "5 / 2"]
  by simp

subsection \<open>Division of a smaller operand by a larger one\<close>

text \<open>
  Claim C10, as stated, for every bit width \<open>w \<ge> 1\<close>: \<open>div\<close> of \<open>0 < a < b\<close> returns
  0. At \<open>w = 31\<close> the clamp \<open>Math.min(0, maxValue)\<close> returns the negative
  \<open>maxValue = -2147483649\<close>, not 0.
\<close>

theorem div_smaller_by_larger_at_31:
  "\<forall>M. (1 :: int) \<le> 31 \<and> (0 :: int) < 1 \<and> (1 :: int) < 2 \<and> (2 :: int) \<le> 2 ^ nat 31 - 1
   \<and> result M 31 1 2 (operation_tag Div) (5 / 2) = js_int (- 2147483649)
   \<and> result M 31 1 2 (operation_tag Div) (5 / 2) \<noteq> Fin 0"
  by (simp add: result_def commonTerms_def maxValue_def js_int_def)

text \<open>
  Claim C10, amended to the bit widths 1 to 30: for all operands with
  \<open>0 < a < b \<le> 2\<^sup>w - 1\<close> the operation \<open>div\<close> returns 0 after clamping (the unclamped
  \<open>a - b + 1\<close> is at most 0), for every \<open>beta\<close>.
\<close>

theorem div_smaller_by_larger:
  assumes "1 \<le> w" "w \<le> 30" "0 < a" "a < b" "b \<le> 2 ^ nat w - 1"
  shows "a - b + 1 \<le> 0 \<and> result M w a b (operation_tag Div) beta = Fin 0"
proof -
  have mv: "maxValue w = 2 ^ nat w - 1"
    using assms by (simp add: maxValue_small)
  have top: "(0 :: int) \<le> 2 ^ nat w - 1" by simp
  have "max 0 (a - b + 1) = 0" using assms by simp
  then show ?thesis
    using assms top by (simp add: result_def commonTerms_def Let_def mv js_int_def)
qed

theorem div_smaller_by_larger_witness:
  "\<forall>M. result M 4 3 7 (operation_tag Div) (5 / 2) = Fin 0"
  using div_smaller_by_larger [where w = 4 and a = 3 and b = 7 and beta = "5 / 2"]
  by simp

subsection \<open>Literals and roundings evaluated\<close>

lemma js_literal_1_02: "js_literal (102 / 100) = 2296835809958953 / 2251799813685248"
  using round64_binade_down [of "102 / 100" 0]
  by (simp add: js_literal_def round_ties_even_def Let_def)

lemma js_literal_0_02: "js_literal (2 / 100) = 5764607523034235 / 288230376151711744"
  using round64_binade_down [of "2 / 100" 6]
  by (simp add: js_literal_def round_ties_even_def Let_def)

lemma js_literal_51_50: "js_literal (51 / 50) = 2296835809958953 / 2251799813685248"
  using js_literal_1_02 by simp

lemma js_literal_1_50: "js_literal (1 / 50) = 5764607523034235 / 288230376151711744"
  using js_literal_0_02 by simp

lemma js_literal_1_1: "js_literal (11 / 10) = 2476979795053773 / 2251799813685248"
  using round64_binade_down [of "11 / 10" 0]
  by (simp add: js_literal_def round_ties_even_def Let_def)

lemma js_literal_1_5: "js_literal (3 / 2) = 3 / 2"
  using round64_binade_down [of "3 / 2" 0]
  by (simp add: js_literal_def round_ties_even_def Let_def)

lemma js_literal_1_8: "js_literal (18 / 10) = 8106479329266893 / 4503599627370496"
  using round64_binade_down [of "18 / 10" 0]
  by (simp add: js_literal_def round_ties_even_def Let_def)

lemma js_literal_9_5: "js_literal (9 / 5) = 8106479329266893 / 4503599627370496"
  using js_literal_1_8 by simp


lemma binary64_eval_up:
  assumes "2 ^ n \<le> \<bar>x\<bar>" "\<bar>x\<bar> < 2 ^ Suc n" "n \<le> 1022"
  shows "binary64 x = Fin (of_int (round_ties_even (x * 2 ^ 52 / 2 ^ n)) * 2 ^ n / 2 ^ 52)"
proof -
  have "(2 :: real) ^ Suc n \<le> 2 ^ 1023"
    by (rule power_increasing) (use assms(3) in simp_all)
  then have "\<bar>x\<bar> \<le> 2 ^ 1023" using assms(2) by linarith
  then show ?thesis
    by (simp only: binary64_fin round64_binade_up [OF assms(1,2)])
qed

lemma binary64_eval_down:
  assumes "1 \<le> \<bar>x\<bar> * 2 ^ k" "\<bar>x\<bar> * 2 ^ k < 2" "k \<le> 1022"
  shows "binary64 x = Fin (of_int (round_ties_even (x * 2 ^ (52 + k))) / 2 ^ (52 + k))"
proof -
  have "(1 :: real) \<le> 2 ^ k" by simp
  then have "\<bar>x\<bar> * 1 \<le> \<bar>x\<bar> * 2 ^ k" by (intro mult_left_mono) simp_all
  then have "\<bar>x\<bar> \<le> 2" using assms(2) by simp
  moreover have "(2 :: real) \<le> 2 ^ 1023" by simp
  ultimately have "\<bar>x\<bar> \<le> 2 ^ 1023" by linarith
  then show ?thesis
    by (simp only: binary64_fin round64_binade_down [OF assms])
qed

subsection \<open>The length of the lookup table\<close>

lemma sub_1_1:
  "binary64 (2476979795053773 / 2251799813685248 - 1)
     = Fin (225179981368525 / 2251799813685248)"
  using binary64_eval_down [of "2476979795053773 / 2251799813685248 - 1" 4]
  by (simp add: round_ties_even_def Let_def)

lemma div_1_1:
  "binary64 (8 / (225179981368525 / 2251799813685248))
     = Fin (5629499534213115 / 70368744177664)"
  using binary64_eval_up [of 6 "8 / (225179981368525 / 2251799813685248)"]
  by (simp add: round_ties_even_def Let_def)

lemma sub_1_8:
  "binary64 (8106479329266893 / 4503599627370496 - 1)
     = Fin (3602879701896397 / 4503599627370496)"
  using binary64_eval_down [of "8106479329266893 / 4503599627370496 - 1" 1]
  by (simp add: round_ties_even_def Let_def)

lemma div_1_8: "binary64 (8 / (3602879701896397 / 4503599627370496)) = Fin 10"
  using binary64_eval_up [of 3 "8 / (3602879701896397 / 4503599627370496)"]
  by (simp add: round_ties_even_def Let_def)

lemma sub_1_5: "binary64 (3 / 2 - 1) = Fin (1 / 2)"
  using binary64_eval_down [of "3 / 2 - 1" 1]
  by (simp add: round_ties_even_def Let_def)

lemma div_1_5: "binary64 (8 / (1 / 2)) = Fin 16"
  using binary64_of_int [of 16] by simp

text \<open>
  Claim C5, as stated, ends with \<open>lutLength(1.1) = 80\<close>. The literal \<open>1.1\<close> is not a
  binary64 number; the number the program holds for it is
  \<open>2476979795053773 / 2\<^sup>5\<^sup>1 = 1.100000000000000088817841970012523...\<close>, a little
  above \<open>1.1\<close>. The subtraction \<open>beta - 1\<close> is exact on it, so the divisor is a little
  above \<open>0.1\<close>, the rounded quotient is \<open>79.99999999999993\<close> and \<open>Math.floor\<close> gives 79.
\<close>

theorem calculateLutLength_at_literal_1_1:
  "calculateLutLength (js_literal (11 / 10)) = Fin 79
   \<and> calculateLutLength (js_literal (11 / 10)) \<noteq> Fin 80"
  using sub_1_1 div_1_1
  by (simp add: js_literal_1_1 calculateLutLength_def EFFICIENCY_THRESHOLD_def js_sub_def)

lemma calculateLutLength_at_literal_1_8:
  "calculateLutLength (js_literal (18 / 10)) = Fin 10
   \<and> max 1 \<lfloor>8 / (js_literal (18 / 10) - 1)\<rfloor> = 9"
  using sub_1_8 div_1_8
  by (simp add: js_literal_9_5 calculateLutLength_def EFFICIENCY_THRESHOLD_def js_sub_def)

lemma calculateLutLength_real_1_1: "max 1 \<lfloor>8 / (11 / 10 - 1 :: real)\<rfloor> = 80"
  by simp

lemma is_binary64_round64:
  assumes "is_binary64 x"
  shows "round64 x = x"
proof (cases "2 ^ 1024 \<le> \<bar>round64 x\<bar>")
  case True
  then have "binary64 x = js_signed_inf (round64 x < 0)"
    by (simp only: binary64_def Let_def if_True)
  then have "binary64 x \<noteq> Fin x"
    by (cases "round64 x < 0") (simp_all only: js_signed_inf_def if_True if_False jsnum.distinct
        not_False_eq_True)
  then show ?thesis using assms by (simp only: is_binary64_def)
next
  case False
  then have "binary64 x = Fin (round64 x)"
    by (simp only: binary64_def Let_def if_False)
  then show ?thesis using assms by (simp only: is_binary64_def jsnum.inject)
qed

lemma binary64_above_1:
  assumes "is_binary64 beta" "1 < beta"
  shows "1 + 1 / 2 ^ 52 \<le> beta"
proof (cases "beta < 2")
  case False
  then show ?thesis by simp
next
  case True
  define n where "n = round_ties_even (beta * 2 ^ 52)"
  have "round64 beta = of_int n / 2 ^ 52"
    using round64_binade_down [of beta 0] assms(2) True by (simp add: n_def)
  then have b: "beta = of_int n / 2 ^ 52"
    using is_binary64_round64 [OF assms(1)] by simp
  then have "of_int n = beta * 2 ^ 52" by simp
  then have "(2 :: real) ^ 52 < of_int n" using assms(2) by simp
  then have "(of_int (2 ^ 52) :: real) < of_int n" by simp
  then have "2 ^ 52 < n" by (simp only: of_int_less_iff)
  then have "2 ^ 52 + 1 \<le> n" by simp
  then have "(of_int (2 ^ 52 + 1) :: real) \<le> of_int n" by (simp only: of_int_le_iff)
  then have "2 ^ 52 + 1 \<le> beta * 2 ^ 52" using b by simp
  then show ?thesis by (simp add: field_simps)
qed

lemma calculateLutLength_full_lut:
  assumes "1 + 1 / 2 ^ 52 \<le> beta" "beta < 2"
  shows "calculateLutLength beta
           = Fin (of_int (max 1 \<lfloor>round64 (8 / round64 (beta - 1))\<rfloor>))"
proof -
  define s where "s = round64 (beta - 1)"
  have b1: "1 / 2 ^ 52 \<le> beta - 1" "beta - 1 < 1" using assms by simp_all
  have sub: "js_sub (Fin beta) (Fin 1) = Fin s"
    using b1 by (simp add: js_sub_def s_def binary64_fin)
  define e1 where "e1 = \<bar>beta - 1\<bar> / 2 ^ 53"
  define e2 :: real where "e2 = 1 / 2 ^ 1075"
  define c :: real where "c = 1 / 2 ^ 52"
  have c: "c \<le> beta - 1" using b1(1) by (simp only: c_def)
  have "\<bar>s - (beta - 1)\<bar> \<le> e1 + e2"
    unfolding s_def e1_def e2_def by (rule round64_approx)
  then have lo: "(beta - 1) - (e1 + e2) \<le> s" by linarith
  have e1: "e1 \<le> (beta - 1) / 4" using b1 by (simp add: e1_def)
  have e2: "e2 \<le> c / 4" by (simp add: e2_def c_def)
  have "c / 2 \<le> s" using lo e1 e2 c by argo
  moreover have "(1 :: real) / 2 ^ 53 = c / 2" by (simp add: c_def)
  ultimately have s: "1 / 2 ^ 53 \<le> s" by (simp only:)
  have "(0 :: real) < 1 / 2 ^ 53" by simp
  then have s0: "0 < s" using s by linarith
  have "8 / s \<le> 8 / (1 / 2 ^ 53)"
    using s by (intro divide_left_mono) simp_all
  then have "8 / s \<le> 2 ^ 1023" by simp
  moreover have "0 \<le> 8 / s" using s0 by simp
  ultimately have dv: "js_div (Fin 8) (Fin s) = Fin (round64 (8 / s))"
    using s0 by (simp add: binary64_fin)
  have "0 \<le> round64 (8 / s)" using \<open>0 \<le> 8 / s\<close> by (rule round64_nonneg)
  show ?thesis
    using assms(2) unfolding calculateLutLength_def Let_def sub dv EFFICIENCY_THRESHOLD_def
    by (simp add: s_def)
qed

text \<open>
  Claim C5, amended: \<open>calculateLutLength\<close> returns 1 for every \<open>beta \<ge> 2\<close>; for every
  binary64 number \<open>1 < beta < 2\<close> it returns \<open>max(1, floor(q))\<close>, where \<open>q\<close> is the
  quotient \<open>8 / (beta - 1)\<close> as the program computes it: the difference rounded to
  binary64, then the quotient rounded to binary64. For the literal \<open>1.5\<close> it returns 16,
  and for the literal \<open>1.1\<close> it returns 79.
\<close>

theorem calculateLutLength_regimes:
  "(2 \<le> beta \<longrightarrow> calculateLutLength beta = Fin 1)
   \<and> (is_binary64 beta \<and> 1 < beta \<and> beta < 2 \<longrightarrow>
        calculateLutLength beta
          = Fin (of_int (max 1 \<lfloor>round64 (8 / round64 (beta - 1))\<rfloor>)))
   \<and> calculateLutLength (js_literal (3 / 2)) = Fin 16
   \<and> calculateLutLength (js_literal (11 / 10)) = Fin 79"
proof (intro conjI impI)
  show "calculateLutLength beta = Fin 1" if "2 \<le> beta"
    using that by (simp add: calculateLutLength_def EFFICIENCY_THRESHOLD_def Let_def)
  show "calculateLutLength beta = Fin (of_int (max 1 \<lfloor>round64 (8 / round64 (beta - 1))\<rfloor>))"
    if "is_binary64 beta \<and> 1 < beta \<and> beta < 2"
    using that binary64_above_1 [of beta] by (simp add: calculateLutLength_full_lut)
  show "calculateLutLength (js_literal (3 / 2)) = Fin 16"
    using sub_1_5 div_1_5
    by (simp add: js_literal_1_5 calculateLutLength_def EFFICIENCY_THRESHOLD_def js_sub_def)
  show "calculateLutLength (js_literal (11 / 10)) = Fin 79"
    using sub_1_1 div_1_1
    by (simp add: js_literal_1_1 calculateLutLength_def EFFICIENCY_THRESHOLD_def js_sub_def)
qed

lemma is_binary64_5_4: "is_binary64 (5 / 4)"
  using binary64_eval_down [of "5 / 4" 0]
  by (simp add: is_binary64_def round_ties_even_def Let_def)

lemma round64_1_4: "round64 (1 / 4) = 1 / 4"
  using round64_binade_down [of "1 / 4" 2] by (simp add: round_ties_even_def Let_def)

lemma round64_32: "round64 32 = 32"
  using round64_of_int [of 32] by simp

theorem calculateLutLength_regimes_witness:
  "calculateLutLength 4 = Fin 1 \<and> calculateLutLength (5 / 4) = Fin 32"
  using calculateLutLength_regimes [of 4] calculateLutLength_regimes [of "5 / 4"]
    is_binary64_5_4
  by (simp add: round64_1_4 round64_32)

subsection \<open>The lookup value\<close>

lemma round64_near:
  assumes "\<bar>x\<bar> \<le> 2 ^ 13"
  shows "\<bar>round64 x - x\<bar> \<le> 1 / 2 ^ 39"
proof -
  define t :: real where "t = 1 / 2 ^ 1075"
  have "\<bar>round64 x - x\<bar> \<le> \<bar>x\<bar> / 2 ^ 53 + t"
    unfolding t_def by (rule round64_approx)
  moreover have "\<bar>x\<bar> / 2 ^ 53 \<le> 2 ^ 13 / 2 ^ 53"
    using assms by (rule divide_right_mono) simp
  moreover have "(2 :: real) ^ 13 / 2 ^ 53 = 1 / 2 ^ 40" by simp
  moreover have "t \<le> 1 / 2 ^ 40" unfolding t_def by simp
  moreover have "(1 :: real) / 2 ^ 39 = 1 / 2 ^ 40 + 1 / 2 ^ 40" by simp
  ultimately show ?thesis by linarith
qed

lemma binary64_near:
  assumes "\<bar>x\<bar> \<le> 2 ^ 13"
  obtains y where "binary64 x = Fin y" "\<bar>y - x\<bar> \<le> 1 / 2 ^ 39"
proof -
  have "(2 :: real) ^ 13 \<le> 2 ^ 1023" by simp
  then have "\<bar>x\<bar> \<le> 2 ^ 1023" using assms by linarith
  then have "binary64 x = Fin (round64 x)" by (rule binary64_fin)
  then show ?thesis using that round64_near [OF assms] by blast
qed

lemma mlog_lower:
  assumes "1 < x"
  shows "ln x * (1 - 1 / 2 ^ 40) \<le> mlog M x"
proof -
  have "0 < ln x" using assms by simp
  then have "\<bar>mlog M x - ln x\<bar> \<le> ln x / 2 ^ 40"
    using mlog_accuracy [of x M] assms by simp
  then have "ln x - ln x / 2 ^ 40 \<le> mlog M x" by linarith
  then show ?thesis by (simp add: algebra_simps)
qed

lemma mlog_upper:
  assumes "1 < x"
  shows "mlog M x \<le> ln x * (1 + 1 / 2 ^ 40)"
proof -
  have "0 < ln x" using assms by simp
  then have "\<bar>mlog M x - ln x\<bar> \<le> ln x / 2 ^ 40"
    using mlog_accuracy [of x M] assms by simp
  then have "mlog M x \<le> ln x + ln x / 2 ^ 40" by linarith
  then show ?thesis by (simp add: algebra_simps)
qed

lemma ln_ratio_lower:
  fixes x y :: real
  assumes "1 < x" "1 < y" "y ^ r \<le> x ^ p" "0 < p"
  shows "real r / real p \<le> ln x / ln y"
proof -
  have "ln (y ^ r) \<le> ln (x ^ p)"
    using assms by (subst ln_le_cancel_iff) simp_all
  then have "real r * ln y \<le> real p * ln x"
    using assms by (simp add: ln_realpow)
  moreover have "0 < ln y" using assms by simp
  ultimately show ?thesis using assms(4) by (simp add: field_simps)
qed

lemma ln_ratio_upper:
  fixes x y :: real
  assumes "1 < x" "1 < y" "x ^ p \<le> y ^ r" "0 < p"
  shows "ln x / ln y \<le> real r / real p"
proof -
  have "ln (x ^ p) \<le> ln (y ^ r)"
    using assms by (subst ln_le_cancel_iff) simp_all
  then have "real p * ln x \<le> real r * ln y"
    using assms by (simp add: ln_realpow)
  moreover have "0 < ln y" using assms by simp
  ultimately show ?thesis using assms(4) by (simp add: field_simps)
qed

lemma mlog_ratio_lower:
  assumes "1 < x" "1 < y" "y ^ r \<le> x ^ p" "0 < p"
  shows "real r / real p * (99 / 100) \<le> mlog M x / mlog M y"
proof -
  have lx: "0 < ln x" and ly: "0 < ln y" using assms by simp_all
  have my: "0 < mlog M y" using assms(2) by (rule mlog_pos)
  have q: "real r / real p \<le> ln x / ln y"
    using assms by (rule ln_ratio_lower)
  have "ln x * (1 - 1 / 2 ^ 40) / (ln y * (1 + 1 / 2 ^ 40)) \<le> mlog M x / mlog M y"
    by (rule frac_le) (use mlog_lower [OF assms(1), of M] mlog_upper [OF assms(2), of M] my lx
        in simp_all)
  moreover have "ln x * (1 - 1 / 2 ^ 40) / (ln y * (1 + 1 / 2 ^ 40))
      = ln x / ln y * ((1 - 1 / 2 ^ 40) / (1 + 1 / 2 ^ 40))"
    by simp
  moreover have "(99 / 100 :: real) \<le> (1 - 1 / 2 ^ 40) / (1 + 1 / 2 ^ 40)" by simp
  moreover have "real r / real p * (99 / 100) \<le> ln x / ln y * (99 / 100)"
    using q by simp
  moreover have "ln x / ln y * (99 / 100) \<le> ln x / ln y * ((1 - 1 / 2 ^ 40) / (1 + 1 / 2 ^ 40))"
    using lx ly by (intro mult_left_mono) simp_all
  ultimately show ?thesis by linarith
qed

lemma mlog_ratio_upper:
  assumes "1 < x" "1 < y" "x ^ p \<le> y ^ r" "0 < p"
  shows "mlog M x / mlog M y \<le> real r / real p * (101 / 100)"
proof -
  have lx: "0 < ln x" and ly: "0 < ln y" using assms by simp_all
  have mx: "0 < mlog M x" using assms(1) by (rule mlog_pos)
  have q: "ln x / ln y \<le> real r / real p"
    using assms by (rule ln_ratio_upper)
  have lo: "0 < ln y * (1 - 1 / 2 ^ 40)" using ly by simp
  have "mlog M x / mlog M y \<le> ln x * (1 + 1 / 2 ^ 40) / (ln y * (1 - 1 / 2 ^ 40))"
    by (rule frac_le) (use mlog_lower [OF assms(2), of M] mlog_upper [OF assms(1), of M] mx lo
        in simp_all)
  moreover have "ln x * (1 + 1 / 2 ^ 40) / (ln y * (1 - 1 / 2 ^ 40))
      = ln x / ln y * ((1 + 1 / 2 ^ 40) / (1 - 1 / 2 ^ 40))"
    by simp
  moreover have "(1 + 1 / 2 ^ 40) / (1 - 1 / 2 ^ 40) \<le> (101 / 100 :: real)" by simp
  moreover have "ln x / ln y * ((1 + 1 / 2 ^ 40) / (1 - 1 / 2 ^ 40)) \<le> ln x / ln y * (101 / 100)"
    using lx ly by (intro mult_left_mono) simp_all
  moreover have "ln x / ln y * (101 / 100) \<le> real r / real p * (101 / 100)"
    using q by simp
  ultimately show ?thesis by linarith
qed

lemma getLutValue_unfold:
  assumes "1 < beta" "0 \<le> gap"
  shows "getLutValue M gap beta =
           (if 2 \<le> beta \<and> 0 < gap then Fin 1
            else js_min (js_int gap)
                   (js_floor (binary64 (mlog M (of_int (gap + 1)) / mlog M beta))))"
proof -
  have b: "0 < mlog M beta" using assms(1) by (rule mlog_pos)
  have la: "js_log M (js_int (gap + 1)) = Fin (mlog M (of_int (gap + 1)))"
    using assms(2) by (simp add: js_int_def)
  have lb: "js_log M (Fin beta) = Fin (mlog M beta)"
    using assms(1) by simp
  have dv: "js_div (Fin (mlog M (of_int (gap + 1)))) (Fin (mlog M beta))
      = binary64 (mlog M (of_int (gap + 1)) / mlog M beta)"
    using b by simp
  show ?thesis
    unfolding getLutValue_def la lb dv EFFICIENCY_THRESHOLD_def ..
qed

lemma lut_quotient_6:
  "42 / 10 \<le> mlog M 6 / mlog M (3 / 2) \<and> mlog M 6 / mlog M (3 / 2) \<le> 46 / 10"
proof -
  define q where "q = mlog M 6 / mlog M (3 / 2)"
  have "real 43 / real 10 * (99 / 100) \<le> q"
    unfolding q_def by (rule mlog_ratio_lower) (simp_all add: eval_nat_numeral)
  moreover have "q \<le> real 9 / real 2 * (101 / 100)"
    unfolding q_def by (rule mlog_ratio_upper) (simp_all add: eval_nat_numeral)
  ultimately have "42 / 10 \<le> q \<and> q \<le> 46 / 10" by simp
  then show ?thesis by (simp only: q_def)
qed

lemma getLutValue_5_full_lut: "getLutValue M 5 (3 / 2) = Fin 4"
proof -
  define q where "q = mlog M 6 / mlog M (3 / 2)"
  have q: "42 / 10 \<le> q" "q \<le> 46 / 10"
    using lut_quotient_6 [of M] by (simp_all only: q_def)
  have "(46 / 10 :: real) \<le> 2 ^ 13" by simp
  then have "\<bar>q\<bar> \<le> 2 ^ 13" using q by linarith
  then obtain y where y: "binary64 q = Fin y" "\<bar>y - q\<bar> \<le> 1 / 2 ^ 39"
    by (rule binary64_near)
  have "(1 :: real) / 2 ^ 39 \<le> 1 / 10" by simp
  then have "4 \<le> y" "y < 5" using y(2) q by linarith+
  then have "\<lfloor>y\<rfloor> = 4" by linarith
  then have "js_min (js_int 5) (js_floor (binary64 q)) = Fin 4"
    by (simp add: y(1) js_int_def)
  moreover have "getLutValue M 5 (3 / 2) = js_min (js_int 5) (js_floor (binary64 q))"
    using getLutValue_unfold [of "3 / 2" 5 M] by (simp add: q_def)
  ultimately show ?thesis by simp
qed

subsection \<open>The error percentage\<close>

lemma ep_2: "errorPercentage 2 = Fin (4691249611844267 / 140737488355328)"
proof -
  have "binary64 (100 / 3) = Fin (4691249611844267 / 140737488355328)"
    using binary64_eval_up [of 5 "100 / 3"] by (simp add: round_ties_even_def Let_def)
  then show ?thesis
    by (simp add: errorPercentage_def js_sub_def binary64_1 binary64_numeral)
qed

lemma ep_5: "errorPercentage 5 = Fin (4691249611844267 / 70368744177664)"
proof -
  have "binary64 (400 / 6) = Fin (4691249611844267 / 70368744177664)"
    using binary64_eval_up [of 6 "400 / 6"] by (simp add: round_ties_even_def Let_def)
  then show ?thesis
    by (simp add: errorPercentage_def js_sub_def binary64_numeral)
qed

lemma ep_5_next: "errorPercentage (5 + 1 / 2 ^ 50) = Fin (4691249611844267 / 70368744177664)"
proof -
  have s: "binary64 (5 + 1 / 2 ^ 50 - 1) = Fin (4503599627370497 / 1125899906842624)"
    using binary64_eval_up [of 2 "5 + 1 / 2 ^ 50 - 1"] by (simp add: round_ties_even_def Let_def)
  have m: "binary64 (100 * (4503599627370497 / 1125899906842624))
      = Fin (3518437208883201 / 8796093022208)"
    using binary64_eval_up [of 8 "100 * (4503599627370497 / 1125899906842624)"]
    by (simp add: round_ties_even_def Let_def)
  have a: "binary64 (5 + 1 / 2 ^ 50 + 1) = Fin (6755399441055745 / 1125899906842624)"
    using binary64_eval_up [of 2 "5 + 1 / 2 ^ 50 + 1"] by (simp add: round_ties_even_def Let_def)
  have d: "binary64 (3518437208883201 / 8796093022208 / (6755399441055745 / 1125899906842624))
      = Fin (4691249611844267 / 70368744177664)"
    using binary64_eval_up [of 6
        "3518437208883201 / 8796093022208 / (6755399441055745 / 1125899906842624)"]
    by (simp add: round_ties_even_def Let_def)
  show ?thesis
    using s m a d by (simp add: errorPercentage_def js_sub_def)
qed

lemma ep_1e17: "errorPercentage (10 ^ 17) = Fin 100"
proof -
  have s: "binary64 (10 ^ 17 - 1) = Fin (10 ^ 17)"
    using binary64_eval_up [of 56 "10 ^ 17 - 1"] by (simp add: round_ties_even_def Let_def)
  have m: "binary64 (100 * 10 ^ 17) = Fin (10 ^ 19)"
    using binary64_eval_up [of 63 "100 * 10 ^ 17"] by (simp add: round_ties_even_def Let_def)
  have a: "binary64 (10 ^ 17 + 1) = Fin (10 ^ 17)"
    using binary64_eval_up [of 56 "10 ^ 17 + 1"] by (simp add: round_ties_even_def Let_def)
  have d: "binary64 (10 ^ 19 / 10 ^ 17) = Fin 100"
    using binary64_of_int [of 100] by simp
  show ?thesis
    using s m a d by (simp add: errorPercentage_def js_sub_def)
qed

lemma round64_rel:
  assumes "1 / 2 ^ 60 \<le> \<bar>x\<bar>"
  shows "\<bar>round64 x - x\<bar> \<le> \<bar>x\<bar> / 2 ^ 52"
proof -
  define t :: real where "t = 1 / 2 ^ 1075"
  define a where "a = \<bar>x\<bar> / 2 ^ 53"
  have "\<bar>round64 x - x\<bar> \<le> a + t"
    unfolding t_def a_def by (rule round64_approx)
  moreover have "t \<le> a"
  proof -
    have "(1 :: real) / 2 ^ 1022 \<le> 1 / 2 ^ 60"
      by (intro divide_left_mono power_increasing) simp_all
    then have "1 / 2 ^ 1022 \<le> \<bar>x\<bar>" using assms by linarith
    then have "(1 / 2 ^ 1022) / 2 ^ 53 \<le> \<bar>x\<bar> / 2 ^ 53"
      by (rule divide_right_mono) simp
    moreover have "(1 / 2 ^ 1022) / 2 ^ 53 = (1 :: real) / 2 ^ 1075"
      by (simp add: power_add [symmetric])
    ultimately show ?thesis by (simp only: t_def a_def)
  qed
  moreover have "\<bar>x\<bar> / 2 ^ 52 = a + a" by (simp add: a_def)
  ultimately show ?thesis by linarith
qed

lemma binary64_rel:
  assumes "1 / 2 ^ 60 \<le> x" "x \<le> 2 ^ 1020"
  obtains y where "binary64 x = Fin y" "x * (1 - 1 / 2 ^ 52) \<le> y" "y \<le> x * (1 + 1 / 2 ^ 52)"
proof -
  have "(0 :: real) < 1 / 2 ^ 60" by simp
  then have x: "0 < x" using assms(1) by linarith
  have "(2 :: real) ^ 1020 \<le> 2 ^ 1023" by (rule power_increasing) simp_all
  then have "\<bar>x\<bar> \<le> 2 ^ 1023" using assms(2) x by linarith
  then have f: "binary64 x = Fin (round64 x)" by (rule binary64_fin)
  have "\<bar>round64 x - x\<bar> \<le> \<bar>x\<bar> / 2 ^ 52"
    by (rule round64_rel) (use assms(1) x in simp)
  then have "\<bar>round64 x - x\<bar> \<le> x / 2 ^ 52" using x by simp
  then have "x - x / 2 ^ 52 \<le> round64 x" "round64 x \<le> x + x / 2 ^ 52" by linarith+
  then have "x * (1 - 1 / 2 ^ 52) \<le> round64 x" "round64 x \<le> x * (1 + 1 / 2 ^ 52)"
    by (simp_all add: algebra_simps)
  then show ?thesis using that f by blast
qed

lemma errorPercentage_rel:
  assumes "1 + 1 / 2 ^ 52 \<le> beta" "beta \<le> 2 ^ 1000"
  obtains y where "errorPercentage beta = Fin y"
    "spec_errorPercentage beta * (1 - 1 / 2 ^ 49) \<le> y"
    "y \<le> spec_errorPercentage beta * (1 + 1 / 2 ^ 49)"
proof -
  define lo :: real where "lo = 1 - 1 / 2 ^ 52"
  define hi :: real where "hi = 1 + 1 / 2 ^ 52"
  define T1 where "T1 = beta - 1"
  define T3 where "T3 = beta + 1"
  define F where "F = 100 * T1 / T3"
  have lo: "0 < lo" "lo \<le> 1" and hi: "1 \<le> hi" "hi \<le> 2" "0 < hi"
    by (simp_all add: lo_def hi_def)
  have T1: "1 / 2 ^ 52 \<le> T1" "T1 \<le> 2 ^ 1000" using assms by (simp_all add: T1_def)
  have T1pos: "0 < T1"
  proof -
    have "(0 :: real) < 1 / 2 ^ 52" by simp
    then show ?thesis using T1(1) by linarith
  qed
  have T3: "2 \<le> T3" "T3 \<le> 2 ^ 1001" "T1 \<le> T3" "0 < T3"
    using assms T1pos by (simp_all add: T3_def T1_def)
  have small: "T3 / 2 ^ 54 \<le> T1"
  proof -
    have "(beta + 1) / 2 ^ 54 \<le> beta - 1"
      using assms(1) by (simp add: field_simps)
    then show ?thesis by (simp add: T1_def T3_def)
  qed
  \<comment> \<open>the subtraction\<close>
  have "1 / 2 ^ 60 \<le> T1"
  proof -
    have "(1 :: real) / 2 ^ 60 \<le> 1 / 2 ^ 52" by simp
    then show ?thesis using T1(1) by linarith
  qed
  moreover have "T1 \<le> 2 ^ 1020"
  proof -
    have "(2 :: real) ^ 1000 \<le> 2 ^ 1020" by (rule power_increasing) simp_all
    then show ?thesis using T1(2) by linarith
  qed
  ultimately obtain t1 where t1: "binary64 T1 = Fin t1" "T1 * lo \<le> t1" "t1 \<le> T1 * hi"
    unfolding lo_def hi_def by (rule binary64_rel)
  have t1pos: "0 < t1"
  proof -
    have "0 < T1 * lo" using T1pos lo by simp
    then show ?thesis using t1(2) by linarith
  qed
  \<comment> \<open>the product\<close>
  have "1 / 2 ^ 60 \<le> 100 * t1"
  proof -
    have "(1 / 2 ^ 52) * lo \<le> T1 * lo" using T1(1) lo by (intro mult_right_mono) simp_all
    moreover have "(1 :: real) / 2 ^ 60 \<le> 100 * ((1 / 2 ^ 52) * lo)" by (simp add: lo_def)
    ultimately show ?thesis using t1(2) by linarith
  qed
  moreover have "100 * t1 \<le> 2 ^ 1020"
  proof -
    have "T1 * hi \<le> 2 ^ 1000 * 2" using T1 hi T1pos by (intro mult_mono) simp_all
    then have "100 * t1 \<le> 100 * (2 ^ 1000 * 2)" using t1(3) by linarith
    moreover have "(100 :: real) * (2 ^ 1000 * 2) \<le> (2 ^ 7) * (2 ^ 1000 * 2)"
      by (intro mult_right_mono) simp_all
    moreover have "((2 :: real) ^ 7) * (2 ^ 1000 * 2) \<le> 2 ^ 1020"
      by (simp add: power_add [symmetric] flip: power_Suc2)
    ultimately show ?thesis by linarith
  qed
  ultimately obtain t2 where t2: "binary64 (100 * t1) = Fin t2"
      "100 * t1 * lo \<le> t2" "t2 \<le> 100 * t1 * hi"
    unfolding lo_def hi_def by (rule binary64_rel)
  have t2lo: "100 * T1 * (lo * lo) \<le> t2"
  proof -
    have "T1 * lo * lo \<le> t1 * lo" using t1(2) lo by (intro mult_right_mono) simp_all
    then show ?thesis using t2(2) by (simp add: algebra_simps)
  qed
  have t2hi: "t2 \<le> 100 * T1 * (hi * hi)"
  proof -
    have "t1 * hi \<le> T1 * hi * hi" using t1(3) hi by (intro mult_right_mono) simp_all
    then show ?thesis using t2(3) by (simp add: algebra_simps)
  qed
  have t2pos: "0 < t2"
  proof -
    have "0 < 100 * T1 * (lo * lo)" using T1pos lo by simp
    then show ?thesis using t2lo by linarith
  qed
  \<comment> \<open>the sum\<close>
  have "1 / 2 ^ 60 \<le> T3"
  proof -
    have "(1 :: real) / 2 ^ 60 \<le> 2" by simp
    then show ?thesis using T3(1) by linarith
  qed
  moreover have "T3 \<le> 2 ^ 1020"
  proof -
    have "(2 :: real) ^ 1001 \<le> 2 ^ 1020" by (rule power_increasing) simp_all
    then show ?thesis using T3(2) by linarith
  qed
  ultimately obtain t3 where t3: "binary64 T3 = Fin t3" "T3 * lo \<le> t3" "t3 \<le> T3 * hi"
    unfolding lo_def hi_def by (rule binary64_rel)
  have t3pos: "0 < t3"
  proof -
    have "0 < T3 * lo" using T3(4) lo by simp
    then show ?thesis using t3(2) by linarith
  qed
  \<comment> \<open>the quotient\<close>
  have qlo: "100 * T1 * (lo * lo) / (T3 * hi) \<le> t2 / t3"
    by (rule frac_le) (use t2lo t3(3) t3pos t2pos in simp_all)
  have qhi: "t2 / t3 \<le> 100 * T1 * (hi * hi) / (T3 * lo)"
    by (rule frac_le) (use t2hi t3(2) T1pos T3(4) lo hi in simp_all)
  have Fq1: "100 * T1 * (lo * lo) / (T3 * hi) = F * (lo * lo / hi)"
    by (simp add: F_def)
  have Fq2: "100 * T1 * (hi * hi) / (T3 * lo) = F * (hi * hi / lo)"
    by (simp add: F_def)
  have Fpos: "0 < F" using T1pos T3(4) by (simp add: F_def)
  have Flo: "100 / 2 ^ 54 \<le> F"
  proof -
    have "100 * (T3 / 2 ^ 54) / T3 \<le> 100 * T1 / T3"
      using small T3(4) by (intro divide_right_mono mult_left_mono) simp_all
    then show ?thesis using T3(4) by (simp add: F_def)
  qed
  have Fhi: "F \<le> 100"
  proof -
    have "100 * T1 / T3 \<le> 100 * T3 / T3"
      using T3 by (intro divide_right_mono mult_left_mono) simp_all
    then show ?thesis using T3(4) by (simp add: F_def)
  qed
  have c1: "(1 :: real) / 2 \<le> lo * lo / hi" by (simp add: lo_def hi_def)
  have c2: "hi * hi / lo \<le> (2 :: real)" by (simp add: lo_def hi_def)
  have "1 / 2 ^ 60 \<le> t2 / t3"
  proof -
    have "(1 :: real) / 2 ^ 60 \<le> 100 / 2 ^ 54 * (1 / 2)" by simp
    also have "\<dots> \<le> F * (1 / 2)" using Flo by (intro mult_right_mono) simp_all
    also have "\<dots> \<le> F * (lo * lo / hi)" using c1 Fpos by (intro mult_left_mono) simp_all
    also have "\<dots> \<le> t2 / t3" using qlo unfolding Fq1 .
    finally show ?thesis .
  qed
  moreover have "t2 / t3 \<le> 2 ^ 1020"
  proof -
    have "t2 / t3 \<le> F * (hi * hi / lo)" using qhi unfolding Fq2 .
    also have "\<dots> \<le> F * 2" using c2 Fpos by (intro mult_left_mono) simp_all
    also have "\<dots> \<le> 100 * 2" using Fhi by (intro mult_right_mono) simp_all
    also have "\<dots> \<le> (2 :: real) ^ 8" by simp
    also have "\<dots> \<le> 2 ^ 1020" by (rule power_increasing) simp_all
    finally show ?thesis .
  qed
  ultimately obtain y where y: "binary64 (t2 / t3) = Fin y"
      "t2 / t3 * lo \<le> y" "y \<le> t2 / t3 * hi"
    unfolding lo_def hi_def by (rule binary64_rel)
  have ylo: "F * (lo * lo / hi) * lo \<le> y"
  proof -
    have "F * (lo * lo / hi) * lo \<le> t2 / t3 * lo"
      using qlo lo unfolding Fq1 by (intro mult_right_mono) simp_all
    then show ?thesis using y(2) by linarith
  qed
  have yhi: "y \<le> F * (hi * hi / lo) * hi"
  proof -
    have "t2 / t3 * hi \<le> F * (hi * hi / lo) * hi"
      using qhi hi unfolding Fq2 by (intro mult_right_mono) simp_all
    then show ?thesis using y(3) by linarith
  qed
  have n1: "(1 - 1 / 2 ^ 49 :: real) \<le> (lo * lo / hi) * lo" by (simp add: lo_def hi_def)
  have n2: "(hi * hi / lo) * hi \<le> (1 + 1 / 2 ^ 49 :: real)" by (simp add: lo_def hi_def)
  have "F * (1 - 1 / 2 ^ 49) \<le> F * ((lo * lo / hi) * lo)"
    using n1 Fpos by (intro mult_left_mono) simp_all
  also have "\<dots> = F * (lo * lo / hi) * lo" by (simp only: mult.assoc)
  also have "\<dots> \<le> y" by (rule ylo)
  finally have r1: "F * (1 - 1 / 2 ^ 49) \<le> y" .
  have "y \<le> F * (hi * hi / lo) * hi" by (rule yhi)
  also have "\<dots> = F * ((hi * hi / lo) * hi)" by (simp only: mult.assoc)
  also have "\<dots> \<le> F * (1 + 1 / 2 ^ 49)"
    using n2 Fpos by (intro mult_left_mono) simp_all
  finally have r2: "y \<le> F * (1 + 1 / 2 ^ 49)" .
  have "errorPercentage beta = Fin y"
    using t1(1) t2(1) t3(1) y(1) t3pos
    by (simp add: errorPercentage_def js_sub_def T1_def T3_def)
  moreover have "F = spec_errorPercentage beta"
    by (simp add: F_def spec_errorPercentage_def T1_def T3_def)
  ultimately show ?thesis using that r1 r2 by blast
qed

lemma is_binary64_int: "\<bar>n\<bar> < 2 ^ 53 \<Longrightarrow> is_binary64 (of_int n)"
  by (simp only: is_binary64_def binary64_of_int)

lemma is_binary64_5: "is_binary64 5"
  using is_binary64_int [of 5] by simp

lemma is_binary64_2: "is_binary64 2"
  using is_binary64_int [of 2] by simp

lemma is_binary64_3: "is_binary64 3"
  using is_binary64_int [of 3] by simp

lemma is_binary64_5_next: "is_binary64 (5 + 1 / 2 ^ 50)"
  using binary64_eval_up [of 2 "5 + 1 / 2 ^ 50"]
  by (simp add: is_binary64_def round_ties_even_def Let_def)

lemma is_binary64_1e17: "is_binary64 (10 ^ 17)"
  using binary64_eval_up [of 56 "10 ^ 17"]
  by (simp add: is_binary64_def round_ties_even_def Let_def)

lemma round64_100_3: "round64 (100 / 3) = 4691249611844267 / 140737488355328"
  using round64_binade_up [of 5 "100 / 3"] by (simp add: round_ties_even_def Let_def)

text \<open>
  Claim C8, as stated: the error percentage is strictly increasing in \<open>\<beta> > 1\<close>, stays
  strictly between 0 and 100, and is \<open>100 / 3\<close> at \<open>\<beta> = 2\<close>. None of the three holds of
  the computed value: the binary64 numbers 5 and \<open>5 + 2\<^sup>-\<^sup>5\<^sup>0\<close>, its successor, have the
  same error percentage; at \<open>\<beta> = 10\<^sup>1\<^sup>7\<close> both \<open>\<beta> - 1\<close> and \<open>\<beta> + 1\<close> round to \<open>\<beta>\<close> and the
  error percentage is 100; and \<open>100 / 3\<close> is not a binary64 number.
\<close>

theorem errorPercentage_not_increasing_nor_below_100:
  "is_binary64 5 \<and> is_binary64 (5 + 1 / 2 ^ 50) \<and> (5 :: real) < 5 + 1 / 2 ^ 50
   \<and> \<not> js_lt (errorPercentage 5) (errorPercentage (5 + 1 / 2 ^ 50))
   \<and> is_binary64 (10 ^ 17) \<and> errorPercentage (10 ^ 17) = Fin 100
   \<and> \<not> js_lt (errorPercentage (10 ^ 17)) (Fin 100)
   \<and> errorPercentage 2 \<noteq> Fin (100 / 3)"
proof -
  have a: "\<not> js_lt (errorPercentage 5) (errorPercentage (5 + 1 / 2 ^ 50))"
    unfolding ep_5 ep_5_next by simp
  have b: "\<not> js_lt (errorPercentage (10 ^ 17)) (Fin 100)"
    unfolding ep_1e17 by simp
  have c: "errorPercentage 2 \<noteq> Fin (100 / 3)"
    unfolding ep_2 by simp
  have d: "(5 :: real) < 5 + 1 / 2 ^ 50" by simp
  show ?thesis
    using is_binary64_5 is_binary64_5_next d a is_binary64_1e17 ep_1e17 b c
    by (intro conjI)
qed

lemma spec_errorPercentage_mono:
  assumes "1 < x" "x < y"
  shows "spec_errorPercentage x < spec_errorPercentage y"
proof -
  have "(x - 1) * (y + 1) < (y - 1) * (x + 1)" using assms by (simp add: algebra_simps)
  then have "(x - 1) / (x + 1) < (y - 1) / (y + 1)"
    using assms by (simp add: field_simps)
  then have "100 * ((x - 1) / (x + 1)) < 100 * ((y - 1) / (y + 1))"
    by (simp only: mult_less_cancel_left_pos zero_less_numeral)
  then show ?thesis by (simp only: spec_errorPercentage_def times_divide_eq_right)
qed

lemma spec_errorPercentage_range:
  assumes "1 < x"
  shows "0 < spec_errorPercentage x" "spec_errorPercentage x < 100"
  using assms by (simp_all add: spec_errorPercentage_def field_simps)


lemma errorPercentage_bounds:
  assumes "is_binary64 beta" "1 < beta" "beta \<le> 2 ^ 1000"
  shows "\<exists>y. errorPercentage beta = Fin y
         \<and> spec_errorPercentage beta * (1 - 1 / 2 ^ 49) \<le> y
         \<and> y \<le> spec_errorPercentage beta * (1 + 1 / 2 ^ 49)"
proof -
  have "1 + 1 / 2 ^ 52 \<le> beta" using assms(1,2) by (rule binary64_above_1)
  then show ?thesis using assms(3) by (rule errorPercentage_rel) blast
qed

lemma errorPercentage_range:
  assumes "is_binary64 beta" "1 < beta" "beta \<le> 2 ^ 50"
  shows "js_lt (Fin 0) (errorPercentage beta)" "js_lt (errorPercentage beta) (Fin 100)"
proof -
  define F where "F = spec_errorPercentage beta"
  have "(2 :: real) ^ 50 \<le> 2 ^ 1000" by (rule power_increasing) simp_all
  then have "beta \<le> 2 ^ 1000" using assms(3) by linarith
  then obtain y where y: "errorPercentage beta = Fin y" "F * (1 - 1 / 2 ^ 49) \<le> y"
    "y \<le> F * (1 + 1 / 2 ^ 49)"
    unfolding F_def using errorPercentage_bounds [OF assms(1,2)] by blast
  have F: "0 < F" unfolding F_def using assms(2) by (rule spec_errorPercentage_range)
  have "0 < F * (1 - 1 / 2 ^ 49)" using F by simp
  then have "0 < y" using y(2) by linarith
  then show "js_lt (Fin 0) (errorPercentage beta)" by (simp add: y(1))
  define c :: real where "c = 1 + 1 / 2 ^ 49"
  have "(beta - 1) * c < beta + 1"
  proof -
    have "(beta - 1) / 2 ^ 49 < 2" using assms(3) by simp
    then show ?thesis by (simp add: algebra_simps c_def)
  qed
  then have "(beta - 1) * c / (beta + 1) < 1"
    using assms(2) by (simp add: field_simps)
  then have "100 * ((beta - 1) * c / (beta + 1)) < 100 * 1"
    by (simp only: mult_less_cancel_left_pos zero_less_numeral)
  moreover have "100 * ((beta - 1) * c / (beta + 1)) = F * c"
    by (simp add: F_def spec_errorPercentage_def)
  ultimately have "F * c < 100" by simp
  then have "F * (1 + 1 / 2 ^ 49) < 100" by (simp only: c_def)
  then have "y < 100" using y(3) by linarith
  then show "js_lt (errorPercentage beta) (Fin 100)" by (simp add: y(1))
qed

lemma errorPercentage_separated:
  assumes "is_binary64 x" "is_binary64 x'" "1 < x" "x < x'" "x' \<le> 2 ^ 1000"
    "spec_errorPercentage x * (1 + 1 / 2 ^ 49) < spec_errorPercentage x' * (1 - 1 / 2 ^ 49)"
  shows "js_lt (errorPercentage x) (errorPercentage x')"
proof -
  have x: "x \<le> 2 ^ 1000" and x': "1 < x'" using assms(3,4,5) by linarith+
  obtain y where y: "errorPercentage x = Fin y"
    "y \<le> spec_errorPercentage x * (1 + 1 / 2 ^ 49)"
    using errorPercentage_bounds [OF assms(1,3) x] by blast
  obtain y' where y': "errorPercentage x' = Fin y'"
    "spec_errorPercentage x' * (1 - 1 / 2 ^ 49) \<le> y'"
    using errorPercentage_bounds [OF assms(2) x' assms(5)] by blast
  have "y < y'" using y(2) y'(2) assms(6) by linarith
  then show ?thesis by (simp add: y(1) y'(1))
qed

text \<open>
  Claim C8, amended. For every binary64 \<open>\<beta>\<close> with \<open>1 < \<beta> \<le> 2\<^sup>1\<^sup>0\<^sup>0\<^sup>0\<close> the computed error
  percentage is a finite number within a relative error of \<open>2\<^sup>-\<^sup>4\<^sup>9\<close> of the real value
  \<open>100 \<sqdot> (\<beta> - 1) / (\<beta> + 1)\<close>; for \<open>\<beta> \<le> 2\<^sup>5\<^sup>0\<close> it lies strictly between 0 and 100. The
  real value is strictly increasing in \<open>\<beta> > 1\<close>, and the computed values of two
  arguments are strictly ordered whenever the real values are further apart than the
  two rounding errors. At \<open>\<beta> = 2\<close> the computed value is the binary64 number nearest to
  \<open>100 / 3\<close>, which is \<open>4691249611844267 / 2\<^sup>4\<^sup>7\<close>.
\<close>

theorem errorPercentage_within_rounding:
  "(is_binary64 beta \<and> 1 < beta \<and> beta \<le> 2 ^ 1000 \<longrightarrow>
      (\<exists>y. errorPercentage beta = Fin y
         \<and> spec_errorPercentage beta * (1 - 1 / 2 ^ 49) \<le> y
         \<and> y \<le> spec_errorPercentage beta * (1 + 1 / 2 ^ 49)))
   \<and> (is_binary64 beta \<and> 1 < beta \<and> beta \<le> 2 ^ 50 \<longrightarrow>
        js_lt (Fin 0) (errorPercentage beta) \<and> js_lt (errorPercentage beta) (Fin 100))
   \<and> (1 < x \<and> x < x' \<longrightarrow> spec_errorPercentage x < spec_errorPercentage x')
   \<and> (is_binary64 x \<and> is_binary64 x' \<and> 1 < x \<and> x < x' \<and> x' \<le> 2 ^ 1000
        \<and> spec_errorPercentage x * (1 + 1 / 2 ^ 49)
            < spec_errorPercentage x' * (1 - 1 / 2 ^ 49)
      \<longrightarrow> js_lt (errorPercentage x) (errorPercentage x'))
   \<and> errorPercentage 2 = Fin (round64 (100 / 3))
   \<and> round64 (100 / 3) = 4691249611844267 / 2 ^ 47"
proof -
  have c1: "is_binary64 beta \<and> 1 < beta \<and> beta \<le> 2 ^ 1000 \<longrightarrow>
      (\<exists>y. errorPercentage beta = Fin y
         \<and> spec_errorPercentage beta * (1 - 1 / 2 ^ 49) \<le> y
         \<and> y \<le> spec_errorPercentage beta * (1 + 1 / 2 ^ 49))"
    using errorPercentage_bounds [of beta] by blast
  have c2: "is_binary64 beta \<and> 1 < beta \<and> beta \<le> 2 ^ 50 \<longrightarrow>
        js_lt (Fin 0) (errorPercentage beta) \<and> js_lt (errorPercentage beta) (Fin 100)"
    using errorPercentage_range [of beta] by blast
  have c3: "1 < x \<and> x < x' \<longrightarrow> spec_errorPercentage x < spec_errorPercentage x'"
    using spec_errorPercentage_mono [of x x'] by blast
  have c4: "is_binary64 x \<and> is_binary64 x' \<and> 1 < x \<and> x < x' \<and> x' \<le> 2 ^ 1000
        \<and> spec_errorPercentage x * (1 + 1 / 2 ^ 49)
            < spec_errorPercentage x' * (1 - 1 / 2 ^ 49)
      \<longrightarrow> js_lt (errorPercentage x) (errorPercentage x')"
    using errorPercentage_separated [of x x'] by blast
  have c5: "errorPercentage 2 = Fin (round64 (100 / 3))"
    by (simp only: ep_2 round64_100_3)
  have c6: "round64 (100 / 3) = 4691249611844267 / 2 ^ 47"
    by (simp add: round64_100_3)
  show ?thesis using c1 c2 c3 c4 c5 c6 by (intro conjI)
qed

theorem errorPercentage_within_rounding_witness:
  "js_lt (Fin 0) (errorPercentage 2) \<and> js_lt (errorPercentage 2) (Fin 100)
   \<and> spec_errorPercentage 2 < spec_errorPercentage 3
   \<and> js_lt (errorPercentage 2) (errorPercentage 3)
   \<and> (\<exists>y. errorPercentage 2 = Fin y
         \<and> spec_errorPercentage 2 * (1 - 1 / 2 ^ 49) \<le> y
         \<and> y \<le> spec_errorPercentage 2 * (1 + 1 / 2 ^ 49))"
proof -
  have a: "(2 :: real) \<le> 2 ^ 1000" "(3 :: real) \<le> 2 ^ 1000" "(2 :: real) \<le> 2 ^ 50"
    "(1 :: real) < 2" "(2 :: real) < 3"
    by simp_all
  have b: "spec_errorPercentage 2 * (1 + 1 / 2 ^ 49) < spec_errorPercentage 3 * (1 - 1 / 2 ^ 49)"
    by (simp add: spec_errorPercentage_def)
  show ?thesis
    using errorPercentage_within_rounding [of 2 2 3] is_binary64_2 is_binary64_3 a b
    by blast
qed

subsection \<open>The lookup value against the formula over the reals\<close>

lemma cube_root_5_bounds:
  "1 < cube_root_5" "cube_root_5 < 2" "cube_root_5 ^ 2 \<le> 5" "5 < cube_root_5 ^ 3"
  "(cube_root_5 ^ 3 / 5 - 1) / 3 \<le> (1 - 1 / cube_root_5) / 2 ^ 40"
  by (simp_all add: cube_root_5_def power2_eq_square power3_eq_cube)

lemma spec_lutValue_cube_root_5: "spec_lutValue 4 cube_root_5 = 2"
proof -
  define b where "b = cube_root_5"
  have b: "1 < b" "b < 2" "b ^ 2 \<le> 5" "5 < b ^ 3"
    unfolding b_def by (rule cube_root_5_bounds)+
  have lb: "0 < ln b" using b(1) by simp
  have "ln (b ^ 2) \<le> ln 5" using b(1,3) by (subst ln_le_cancel_iff) simp_all
  then have l2: "2 * ln b \<le> ln 5" using b(1) by (simp add: ln_realpow)
  have "ln 5 < ln (b ^ 3)" using b(1,4) by (subst ln_less_cancel_iff) simp_all
  then have l3: "ln 5 < 3 * ln b" using b(1) by (simp add: ln_realpow)
  have "2 \<le> ln 5 / ln b" using l2 lb by (simp add: field_simps)
  moreover have "ln 5 / ln b < 3" using l3 lb by (simp add: field_simps)
  ultimately have "\<lfloor>ln 5 / ln b\<rfloor> = 2" by (intro floor_unique) simp_all
  then show ?thesis using b(2) by (simp add: spec_lutValue_def b_def [symmetric])
qed

lemma short_log_accuracy:
  assumes "0 < x"
  shows "\<bar>short_log x - ln x\<bar> \<le> \<bar>ln x\<bar> / 2 ^ 40"
proof (cases "x = cube_root_5")
  case False
  then show ?thesis by (simp add: short_log_def)
next
  case True
  define b where "b = cube_root_5"
  have b: "1 < b" "5 < b ^ 3" "(b ^ 3 / 5 - 1) / 3 \<le> (1 - 1 / b) / 2 ^ 40"
    unfolding b_def by (rule cube_root_5_bounds)+
  have lb: "0 < ln b" using b(1) by simp
  have q: "1 < b ^ 3 / 5" using b(2) by simp
  have "ln (b ^ 3 / 5) = 3 * ln b - ln 5"
    using b(1) by (simp add: ln_div ln_realpow)
  moreover have "ln (b ^ 3 / 5) \<le> b ^ 3 / 5 - 1"
    using b(1) by (intro ln_le_minus_one) simp
  moreover have "0 < ln (b ^ 3 / 5)" using q by (rule ln_gt_zero)
  ultimately have d: "0 < ln b - ln 5 / 3" "ln b - ln 5 / 3 \<le> (b ^ 3 / 5 - 1) / 3"
    by simp_all
  have "ln (1 / b) \<le> 1 / b - 1" using b(1) by (intro ln_le_minus_one) simp
  then have "1 - 1 / b \<le> ln b" using b(1) by (simp add: ln_div)
  then have "(1 - 1 / b) / 2 ^ 40 \<le> ln b / 2 ^ 40" by (rule divide_right_mono) simp
  then have "ln b - ln 5 / 3 \<le> ln b / 2 ^ 40" using d(2) b(3) by linarith
  then have "\<bar>ln 5 / 3 - ln b\<bar> \<le> \<bar>ln b\<bar> / 2 ^ 40" using d(1) lb by simp
  then show ?thesis using True by (simp add: short_log_def b_def)
qed

lemma mlog_short_log: "mlog (Abs_libm (short_log, exp)) = short_log"
proof -
  have "(short_log, exp) \<in> {(l :: real \<Rightarrow> real, e :: real \<Rightarrow> real).
      (\<forall>x. 0 < x \<longrightarrow> \<bar>l x - ln x\<bar> \<le> \<bar>ln x\<bar> / 2 ^ 40)
      \<and> (\<forall>x. \<bar>x\<bar> \<le> 700 \<longrightarrow> \<bar>e x - exp x\<bar> \<le> exp x / 2 ^ 40)
      \<and> (\<forall>x. 0 \<le> e x)}"
    using short_log_accuracy by simp
  then show ?thesis by (simp add: mlog_def Abs_libm_inverse)
qed

lemma is_binary64_cube_root_5: "is_binary64 cube_root_5"
  using binary64_eval_down [of "1925261759066421 / 2 ^ 50" 0]
  by (simp add: is_binary64_def cube_root_5_def round_ties_even_def Let_def)

text \<open>
  Claim C6, as stated, with the real logarithm and the exact quotient. At the gap 4 and
  the binary64 number \<open>\<beta> = 1925261759066421 / 2\<^sup>5\<^sup>0 = 1.709975946676697\<close>, next above
  the cube root of 5, the quotient \<open>ln 5 / ln \<beta>\<close> is a little below 3 and the formula
  gives 2. The computed quotient is the rounded quotient of two rounded logarithms; a
  \<open>Math.log\<close> that is off by \<open>4 \<sqdot> 10\<^sup>-\<^sup>1\<^sup>7\<close> at \<open>\<beta>\<close> makes it 3, and \<open>getLutValue\<close> returns 3.
\<close>

theorem getLutValue_not_real_formula:
  "(1 :: real) < 1925261759066421 / 2 ^ 50 \<and> (0 :: int) \<le> 4
   \<and> is_binary64 (1925261759066421 / 2 ^ 50)
   \<and> spec_lutValue 4 (1925261759066421 / 2 ^ 50) = 2
   \<and> (\<exists>M. getLutValue M 4 (1925261759066421 / 2 ^ 50) = js_int 3)"
proof -
  define M where "M = Abs_libm (short_log, exp)"
  have b: "1 < cube_root_5" "cube_root_5 < 2" by (rule cube_root_5_bounds)+
  have l5: "0 < ln (5 :: real)" by simp
  have "(5 :: real) \<noteq> cube_root_5" using b(2) by simp
  then have m5: "mlog M (of_int (4 + 1)) = ln 5"
    by (simp add: M_def mlog_short_log short_log_def)
  have mb: "mlog M cube_root_5 = ln 5 / 3"
    by (simp add: M_def mlog_short_log short_log_def)
  have "mlog M (of_int (4 + 1)) / mlog M cube_root_5 = 3"
    unfolding m5 mb using l5 by simp
  then have "getLutValue M 4 cube_root_5 = js_int 3"
    using b by (simp add: getLutValue_unfold js_int_def binary64_numeral)
  then have "\<exists>M. getLutValue M 4 cube_root_5 = js_int 3" ..
  then show ?thesis
    using b(1) is_binary64_cube_root_5 spec_lutValue_cube_root_5
    by (simp add: cube_root_5_def)
qed

subsection \<open>The slider round trip\<close>

lemma round64_wide:
  assumes "\<bar>x\<bar> \<le> 2 ^ 15"
  shows "\<bar>round64 x - x\<bar> \<le> 1 / 2 ^ 37"
proof -
  define t :: real where "t = 1 / 2 ^ 1075"
  have "\<bar>round64 x - x\<bar> \<le> \<bar>x\<bar> / 2 ^ 53 + t"
    unfolding t_def by (rule round64_approx)
  moreover have "\<bar>x\<bar> / 2 ^ 53 \<le> 2 ^ 15 / 2 ^ 53"
    using assms by (rule divide_right_mono) simp
  moreover have "(2 :: real) ^ 15 / 2 ^ 53 = 1 / 2 ^ 38" by simp
  moreover have "t \<le> 1 / 2 ^ 38" unfolding t_def by simp
  moreover have "(1 :: real) / 2 ^ 37 = 1 / 2 ^ 38 + 1 / 2 ^ 38" by simp
  ultimately show ?thesis by linarith
qed

lemma binary64_wide:
  assumes "\<bar>x\<bar> \<le> 32768"
  obtains y where "binary64 x = Fin y" "\<bar>y - x\<bar> \<le> 1 / 2 ^ 37"
proof -
  have a: "\<bar>x\<bar> \<le> 2 ^ 15" using assms by simp
  have "(2 :: real) ^ 15 \<le> 2 ^ 1023" by simp
  then have "\<bar>x\<bar> \<le> 2 ^ 1023" using a by linarith
  then have "binary64 x = Fin (round64 x)" by (rule binary64_fin)
  then show ?thesis using that round64_wide [OF a] by blast
qed

lemma ln_bounds:
  fixes x :: real
  assumes "0 < x"
  shows "1 - 1 / x \<le> ln x" "ln x \<le> x - 1"
proof -
  show "ln x \<le> x - 1" using assms by (rule ln_le_minus_one)
  have "ln (1 / x) \<le> 1 / x - 1" using assms by (intro ln_le_minus_one) simp
  then show "1 - 1 / x \<le> ln x" using assms by (simp add: ln_div)
qed

lemma ln_small_range:
  fixes x :: real
  assumes "1 / 51 \<le> x" "x \<le> 30"
  shows "- 50 \<le> ln x" "ln x \<le> 29"
proof -
  have x: "0 < x" using assms(1) by (rule less_le_trans [rotated]) simp
  have "1 / x \<le> 51" using assms(1) x by (simp add: field_simps)
  then show "- 50 \<le> ln x" using ln_bounds(1) [OF x] by linarith
  show "ln x \<le> 29" using ln_bounds(2) [OF x] assms(2) by linarith
qed

lemma mlog_small_range:
  assumes "1 / 51 \<le> x" "x \<le> 30"
  shows "\<bar>mlog M x - ln x\<bar> \<le> 7 / 2 ^ 37" "\<bar>mlog M x\<bar> \<le> 51"
proof -
  have x: "0 < x" using assms(1) by (rule less_le_trans [rotated]) simp
  have l: "\<bar>ln x\<bar> \<le> 50" using ln_small_range [OF assms] by linarith
  then have "\<bar>ln x\<bar> / 2 ^ 40 \<le> 50 / 2 ^ 40" by (rule divide_right_mono) simp
  moreover have "(50 :: real) / 2 ^ 40 \<le> 7 / 2 ^ 37" by simp
  ultimately show a: "\<bar>mlog M x - ln x\<bar> \<le> 7 / 2 ^ 37"
    using mlog_accuracy [OF x, of M] by linarith
  have "(7 :: real) / 2 ^ 37 \<le> 1" by simp
  then show "\<bar>mlog M x\<bar> \<le> 51" using a l by linarith
qed

lemma slider_logMin_bounds:
  "\<bar>slider_logMin M - ln (js_literal (2 / 100))\<bar> \<le> 7 / 2 ^ 37"
  "\<bar>slider_logMin M\<bar> \<le> 51"
  "slider_logMin M \<le> - 9 / 10"
  "1 / 51 \<le> js_literal (2 / 100)" "js_literal (2 / 100) \<le> 30"
  "js_literal (2 / 100) \<le> 2 / 100 + 1 / 2 ^ 58"
proof -
  define c where "c = js_literal (2 / 100)"
  have c: "1 / 51 \<le> c" "c \<le> 30" "c \<le> 1 / 40" "c \<le> 2 / 100 + 1 / 2 ^ 58"
    by (simp_all add: c_def js_literal_1_50)
  have c0: "0 < c" using c(1) by (rule less_le_trans [rotated]) simp
  show "1 / 51 \<le> js_literal (2 / 100)" "js_literal (2 / 100) \<le> 30"
    "js_literal (2 / 100) \<le> 2 / 100 + 1 / 2 ^ 58"
    using c unfolding c_def by blast+
  show a: "\<bar>slider_logMin M - ln (js_literal (2 / 100))\<bar> \<le> 7 / 2 ^ 37"
    using mlog_small_range(1) [OF c(1,2), of M] by (simp only: slider_logMin_def c_def)
  show "\<bar>slider_logMin M\<bar> \<le> 51"
    using mlog_small_range(2) [OF c(1,2), of M] by (simp only: slider_logMin_def c_def)
  have "ln c \<le> c - 1" using c0 by (rule ln_le_minus_one)
  then have "ln c \<le> - 39 / 40" using c(3) by linarith
  moreover have "(7 :: real) / 2 ^ 37 \<le> 1 / 50" by simp
  ultimately show "slider_logMin M \<le> - 9 / 10" using a unfolding c_def by linarith
qed

lemma slider_logMax_bounds: "9 / 10 \<le> slider_logMax M" "slider_logMax M \<le> 51"
proof -
  have r: "(1 :: real) / 51 \<le> 29" "(29 :: real) \<le> 30" by simp_all
  have "exp 1 \<le> (29 :: real)" using exp_le by linarith
  then have "1 \<le> ln (29 :: real)" by (subst ln_ge_iff) simp_all
  moreover have "(7 :: real) / 2 ^ 37 \<le> 1 / 10" by simp
  ultimately show "9 / 10 \<le> slider_logMax M"
    using mlog_small_range(1) [OF r, of M] unfolding slider_logMax_def by linarith
  show "slider_logMax M \<le> 51"
    using mlog_small_range(2) [OF r, of M] unfolding slider_logMax_def by linarith
qed

lemma slider_logSpan:
  "js_sub (js_log M (Fin 29)) (js_log M (Fin (js_literal (2 / 100)))) = Fin (slider_logSpan M)"
  "1 \<le> slider_logSpan M" "slider_logSpan M \<le> 103"
proof -
  define x where "x = slider_logMax M - slider_logMin M"
  have x: "18 / 10 \<le> x" "x \<le> 102"
    using slider_logMin_bounds(2,3) [of M] slider_logMax_bounds [of M]
    unfolding x_def by linarith+
  then have "\<bar>x\<bar> \<le> 32768" by linarith
  then obtain y where y: "binary64 x = Fin y" "\<bar>y - x\<bar> \<le> 1 / 2 ^ 37"
    by (rule binary64_wide)
  have "\<bar>x\<bar> \<le> 2 ^ 1023"
  proof -
    have "(102 :: real) \<le> 2 ^ 1023" by simp
    then show ?thesis using x by linarith
  qed
  then have "binary64 x = Fin (round64 x)" by (rule binary64_fin)
  then have yy: "y = slider_logSpan M" using y(1) by (simp add: slider_logSpan_def x_def)
  have c0: "0 < js_literal (2 / 100)"
    using slider_logMin_bounds(4) by (rule less_le_trans [rotated]) simp
  show "js_sub (js_log M (Fin 29)) (js_log M (Fin (js_literal (2 / 100)))) = Fin (slider_logSpan M)"
    using c0 y(1) unfolding yy
    by (simp add: js_sub_def x_def slider_logMax_def slider_logMin_def)
  have "(1 :: real) / 2 ^ 37 \<le> 1 / 10" by simp
  then show "1 \<le> slider_logSpan M" "slider_logSpan M \<le> 103"
    using y(2) x unfolding yy by linarith+
qed


lemma scaled_error:
  fixes D x u :: real
  assumes "0 \<le> D" "\<bar>x\<bar> \<le> u"
  shows "\<bar>D * x\<bar> \<le> D * u"
proof -
  have "\<bar>D * x\<bar> = D * \<bar>x\<bar>" using assms(1) by (simp add: abs_mult)
  also have "\<dots> \<le> D * u" using assms by (intro mult_left_mono)
  finally show ?thesis .
qed

lemma betaToSlider_log:
  assumes "js_literal (102 / 100) < beta" "beta < 30"
  obtains v s where "betaToSlider M beta = Fin v" "\<bar>v\<bar> \<le> 10401"
    "\<bar>s - (beta - 1)\<bar> \<le> 1 / 2 ^ 37" "1 / 51 \<le> s" "s \<le> 30"
    "\<bar>slider_logMin M + v / 100 * slider_logSpan M - ln s\<bar>
       \<le> (8 + 2 * slider_logSpan M) * (1 / 2 ^ 37)"
proof -
  define u :: real where "u = 1 / 2 ^ 37"
  define D where "D = slider_logSpan M"
  define lm where "lm = slider_logMin M"
  have u: "0 < u" "u \<le> 1 / 1000000" by (simp_all add: u_def)
  have D: "1 \<le> D" "D \<le> 103" unfolding D_def by (rule slider_logSpan)+
  have D0: "0 \<le> D" "D \<noteq> 0" using D(1) by linarith+
  have "(51 / 50 :: real) \<le> js_literal (102 / 100)" by (simp add: js_literal_51_50)
  then have b: "1 / 50 < beta - 1" "beta - 1 < 29" using assms by linarith+
  then have "\<bar>beta - 1\<bar> \<le> 32768" by linarith
  then obtain s where s: "binary64 (beta - 1) = Fin s" "\<bar>s - (beta - 1)\<bar> \<le> u"
    unfolding u_def by (rule binary64_wide)
  have sr: "1 / 51 \<le> s" "s \<le> 30" using s(2) b u(2) by linarith+
  have s0: "0 < s" using sr(1) by (rule less_le_trans [rotated]) simp
  have sub1: "js_sub (Fin beta) (Fin 1) = Fin s" using s(1) by (simp add: js_sub_def)
  define L where "L = mlog M s"
  have L: "\<bar>L - ln s\<bar> \<le> 7 * u" "\<bar>L\<bar> \<le> 51"
    using mlog_small_range [OF sr, of M] by (simp_all add: L_def u_def)
  have logBeta: "js_log M (Fin s) = Fin L" using s0 by (simp add: L_def)
  have lmb: "\<bar>lm\<bar> \<le> 51" unfolding lm_def by (rule slider_logMin_bounds)
  have c0: "0 < js_literal (2 / 100)"
    using slider_logMin_bounds(4) by (rule less_le_trans [rotated]) simp
  have logMin: "js_log M (Fin (js_literal (2 / 100))) = Fin lm"
    using c0 by (simp only: js_log.simps if_True lm_def slider_logMin_def)
  have span: "js_sub (js_log M (Fin 29)) (Fin lm) = Fin D"
    using slider_logSpan(1) [of M] by (simp only: logMin D_def)
  have "\<bar>L - lm\<bar> \<le> 32768" using L(2) lmb by linarith
  then obtain N where N: "binary64 (L - lm) = Fin N" "\<bar>N - (L - lm)\<bar> \<le> u"
    unfolding u_def by (rule binary64_wide)
  have Nb: "\<bar>N\<bar> \<le> 103" using N(2) L(2) lmb u(2) by linarith
  have num: "js_sub (Fin L) (Fin lm) = Fin N" using N(1) by (simp add: js_sub_def)
  have nd: "\<bar>N / D\<bar> \<le> 103"
  proof -
    have "\<bar>N / D\<bar> = \<bar>N\<bar> / D" using D0 by simp
    also have "\<dots> \<le> \<bar>N\<bar> / 1" using D(1) by (intro divide_left_mono) simp_all
    finally show ?thesis using Nb by simp
  qed
  then have "\<bar>N / D\<bar> \<le> 32768" by linarith
  then obtain q where q: "binary64 (N / D) = Fin q" "\<bar>q - N / D\<bar> \<le> u"
    unfolding u_def by (rule binary64_wide)
  have quo: "js_div (Fin N) (Fin D) = Fin q" using q(1) D0(2) by simp
  have qb: "\<bar>q\<bar> \<le> 104" using q(2) nd u(2) by linarith
  then have "\<bar>q * 100\<bar> \<le> 32768" by (simp add: abs_mult)
  then obtain v where v: "binary64 (q * 100) = Fin v" "\<bar>v - q * 100\<bar> \<le> u"
    unfolding u_def by (rule binary64_wide)
  have "\<bar>q * 100\<bar> \<le> 10400" using qb by (simp add: abs_mult)
  then have vb: "\<bar>v\<bar> \<le> 10401" using v(2) u(2) by linarith
  have c: "\<not> beta \<le> js_literal (102 / 100)" "\<not> 30 \<le> beta" using assms by linarith+
  have res: "betaToSlider M beta = Fin v"
    unfolding betaToSlider_def Let_def if_not_P [OF c(1)] if_not_P [OF c(2)]
      sub1 logBeta logMin span num quo
    using v(1) by simp
  have e1: "D * (N / D) = N" using D0(2) by simp
  define A where "A = D * (q - N / D)"
  define B where "B = D * ((v - q * 100) / 100)"
  define Du where "Du = D * u"
  have "lm + v / 100 * D - ln s = (N - (L - lm)) + (L - ln s) + A + B"
  proof -
    have "A = D * q - N" using e1 by (simp add: A_def algebra_simps)
    moreover have "B = v / 100 * D - D * q"
    proof -
      have "(v - q * 100) / 100 = v / 100 - q" by simp
      then have "B = D * (v / 100 - q)" by (simp only: B_def)
      also have "\<dots> = D * (v / 100) - D * q" by (rule right_diff_distrib)
      also have "\<dots> = v / 100 * D - D * q" by (simp only: mult.commute)
      finally show ?thesis .
    qed
    ultimately show ?thesis by linarith
  qed
  moreover have "\<bar>A\<bar> \<le> Du" unfolding A_def Du_def using D0(1) q(2) by (rule scaled_error)
  moreover have "\<bar>B\<bar> \<le> Du"
    unfolding B_def Du_def
  proof (rule scaled_error [OF D0(1)])
    have "\<bar>(v - q * 100) / 100\<bar> = \<bar>v - q * 100\<bar> / 100" by simp
    also have "\<dots> \<le> \<bar>v - q * 100\<bar>" by simp
    finally show "\<bar>(v - q * 100) / 100\<bar> \<le> u" using v(2) by linarith
  qed
  moreover have "(8 + 2 * D) * u = 8 * u + 2 * Du" by (simp add: Du_def algebra_simps)
  ultimately have "\<bar>lm + v / 100 * D - ln s\<bar> \<le> (8 + 2 * D) * u"
    using N(2) L(1) by linarith
  then show ?thesis
    using that [OF res vb _ sr] s(2) unfolding u_def lm_def D_def by blast
qed


lemma sliderToBeta_log:
  assumes "\<bar>v\<bar> \<le> 10401"
  obtains lb where
    "sliderToBeta M (Fin v) =
       js_max (Fin (js_literal (102 / 100)))
         (js_min (Fin 30) (js_add (Fin 1) (js_exp M (Fin lb))))"
    "\<bar>lb - (slider_logMin M + v / 100 * slider_logSpan M)\<bar>
       \<le> (2 + slider_logSpan M) * (1 / 2 ^ 37)"
proof -
  define u :: real where "u = 1 / 2 ^ 37"
  define D where "D = slider_logSpan M"
  define lm where "lm = slider_logMin M"
  have u: "0 < u" "u \<le> 1 / 1000000" by (simp_all add: u_def)
  have D: "1 \<le> D" "D \<le> 103" unfolding D_def by (rule slider_logSpan)+
  have D0: "0 \<le> D" "D \<noteq> 0" using D(1) by linarith+
  have lmb: "\<bar>lm\<bar> \<le> 51" unfolding lm_def by (rule slider_logMin_bounds)
  have c0: "0 < js_literal (2 / 100)"
    using slider_logMin_bounds(4) by (rule less_le_trans [rotated]) simp
  have logMin: "js_log M (Fin (js_literal (2 / 100))) = Fin lm"
    using c0 by (simp only: js_log.simps if_True lm_def slider_logMin_def)
  have span: "js_sub (js_log M (Fin 29)) (Fin lm) = Fin D"
    using slider_logSpan(1) [of M] by (simp only: logMin D_def)
  have v100: "\<bar>v / 100\<bar> \<le> 105" using assms by simp
  then have "\<bar>v / 100\<bar> \<le> 32768" by linarith
  then obtain q where q: "binary64 (v / 100) = Fin q" "\<bar>q - v / 100\<bar> \<le> u"
    unfolding u_def by (rule binary64_wide)
  have quo: "js_div (Fin v) (Fin 100) = Fin q" using q(1) by simp
  have qb: "\<bar>q\<bar> \<le> 106" using q(2) v100 u(2) by linarith
  have qD: "\<bar>q * D\<bar> \<le> 10918"
  proof -
    have "\<bar>q * D\<bar> = \<bar>q\<bar> * D" using D0(1) by (simp add: abs_mult)
    also have "\<dots> \<le> 106 * 103" using qb D by (intro mult_mono) simp_all
    finally show ?thesis by simp
  qed
  then have "\<bar>q * D\<bar> \<le> 32768" by linarith
  then obtain p where p: "binary64 (q * D) = Fin p" "\<bar>p - q * D\<bar> \<le> u"
    unfolding u_def by (rule binary64_wide)
  have prod: "js_mul (Fin q) (Fin D) = Fin p" using p(1) by simp
  have "\<bar>lm + p\<bar> \<le> 32768" using p(2) qD lmb u(2) by linarith
  then obtain lb where lb: "binary64 (lm + p) = Fin lb" "\<bar>lb - (lm + p)\<bar> \<le> u"
    unfolding u_def by (rule binary64_wide)
  have sum: "js_add (Fin lm) (Fin p) = Fin lb" using lb(1) by simp
  have res: "sliderToBeta M (Fin v) =
       js_max (Fin (js_literal (102 / 100)))
         (js_min (Fin 30) (js_add (Fin 1) (js_exp M (Fin lb))))"
    unfolding sliderToBeta_def Let_def logMin span quo prod sum ..
  define A where "A = D * (q - v / 100)"
  define Du where "Du = D * u"
  have "A = q * D - v / 100 * D"
  proof -
    have "A = D * q - D * (v / 100)" unfolding A_def by (rule right_diff_distrib)
    then show ?thesis by (simp only: mult.commute)
  qed
  then have "lb - (lm + v / 100 * D) = (lb - (lm + p)) + (p - q * D) + A" by linarith
  moreover have "\<bar>A\<bar> \<le> Du" unfolding A_def Du_def using D0(1) q(2) by (rule scaled_error)
  moreover have "(2 + D) * u = 2 * u + Du" by (simp add: Du_def algebra_simps)
  ultimately have "\<bar>lb - (lm + v / 100 * D)\<bar> \<le> (2 + D) * u"
    using lb(2) p(2) by linarith
  then show ?thesis
    using that [OF res] unfolding u_def lm_def D_def by blast
qed

lemma exp_tail:
  assumes "1 / 51 \<le> s" "s \<le> 30" "\<bar>lb - ln s\<bar> \<le> 320 * (1 / 2 ^ 37)"
  obtains r where "js_add (Fin 1) (js_exp M (Fin lb)) = Fin r"
    "\<bar>r - (1 + s)\<bar> \<le> 19205 * (1 / 2 ^ 37)"
proof -
  define u :: real where "u = 1 / 2 ^ 37"
  define dl where "dl = 320 * u"
  define th where "th = lb - ln s"
  define x where "x = exp th"
  define E where "E = exp lb"
  define e where "e = mexp M lb"
  have u: "0 < u" "u \<le> 1 / 1000000" by (simp_all add: u_def)
  have dl: "0 < dl" "dl \<le> 1 / 100000" by (simp_all add: dl_def u_def)
  have th: "\<bar>th\<bar> \<le> dl" using assms(3) by (simp only: th_def dl_def u_def)
  have s0: "0 < s" using assms(1) by (rule less_le_trans [rotated]) simp
  have ls: "\<bar>ln s\<bar> \<le> 50" using ln_small_range [OF assms(1,2)] by linarith
  have lbb: "\<bar>lb\<bar> \<le> 700" using th ls dl(2) unfolding th_def by linarith
  have "E = exp (ln s + th)" by (simp add: E_def th_def)
  also have "\<dots> = exp (ln s) * exp th" by (rule exp_add)
  finally have E: "E = s * x" using s0 by (simp add: x_def)
  have "1 + th \<le> x" unfolding x_def by (rule exp_ge_add_one_self)
  then have xl: "1 - dl \<le> x" using th by linarith
  have "x \<le> exp dl" unfolding x_def using th by simp
  also have "exp dl \<le> 1 + dl + dl\<^sup>2" using dl by (intro exp_bound) simp_all
  also have "\<dots> \<le> 1 + dl + dl"
  proof -
    have "dl * dl \<le> dl * 1" using dl by (intro mult_left_mono) simp_all
    then show ?thesis by (simp add: power2_eq_square)
  qed
  finally have xu: "x \<le> 1 + 2 * dl" by simp
  have "\<bar>x - 1\<bar> \<le> 2 * dl" using xl xu dl(1) by linarith
  then have "\<bar>s * (x - 1)\<bar> \<le> s * (2 * dl)"
    using s0 by (intro scaled_error) simp_all
  also have "\<dots> \<le> 30 * (2 * dl)" using assms(2) dl(1) by (intro mult_right_mono) simp_all
  finally have Es: "\<bar>E - s\<bar> \<le> 60 * dl" by (simp add: E algebra_simps)
  then have Eb: "0 \<le> E" "E \<le> 31" using assms(1,2) dl(2) by linarith+
  have "\<bar>e - E\<bar> \<le> E / 2 ^ 40"
    unfolding e_def E_def using lbb by (rule mexp_accuracy)
  moreover have "E / 2 ^ 40 \<le> 31 / 2 ^ 40" using Eb(2) by (rule divide_right_mono) simp
  moreover have "(31 :: real) / 2 ^ 40 \<le> 4 * u" by (simp add: u_def)
  ultimately have eE: "\<bar>e - E\<bar> \<le> 4 * u" by linarith
  have eb: "\<bar>e\<bar> \<le> 32" using eE Eb u(2) by linarith
  have "\<not> 2 ^ 1024 \<le> e"
  proof -
    have "(32 :: real) < 2 ^ 1024" by simp
    then show ?thesis using eb by linarith
  qed
  then have ex: "js_exp M (Fin lb) = Fin e"
    by (simp only: js_exp.simps e_def if_False)
  have "\<bar>1 + e\<bar> \<le> 32768" using eb by linarith
  then obtain r where r: "binary64 (1 + e) = Fin r" "\<bar>r - (1 + e)\<bar> \<le> u"
    unfolding u_def by (rule binary64_wide)
  have res: "js_add (Fin 1) (js_exp M (Fin lb)) = Fin r"
    unfolding ex using r(1) by simp
  have "\<bar>r - (1 + s)\<bar> \<le> 19205 * u"
    using r(2) eE Es unfolding dl_def by linarith
  then show ?thesis using that [OF res] unfolding u_def by blast
qed


lemma clamp_closer:
  fixes r beta lo hi :: real
  assumes "lo \<le> beta" "beta \<le> hi"
  shows "\<bar>max lo (min hi r) - beta\<bar> \<le> \<bar>r - beta\<bar>"
  using assms by (simp add: max_def min_def abs_if)

lemma slider_round_trip_inner:
  assumes "js_literal (102 / 100) < beta" "beta < 30"
  obtains r where "sliderToBeta M (betaToSlider M beta) = Fin r"
    "\<bar>r - beta\<bar> \<le> 19206 * (1 / 2 ^ 37)"
proof -
  define u :: real where "u = 1 / 2 ^ 37"
  define D where "D = slider_logSpan M"
  define lm where "lm = slider_logMin M"
  define Du where "Du = D * u"
  have D: "1 \<le> D" "D \<le> 103" unfolding D_def by (rule slider_logSpan)+
  have u: "0 < u" by (simp add: u_def)
  obtain v s where v: "betaToSlider M beta = Fin v" "\<bar>v\<bar> \<le> 10401"
    and s: "\<bar>s - (beta - 1)\<bar> \<le> u" "1 / 51 \<le> s" "s \<le> 30"
    and f: "\<bar>lm + v / 100 * D - ln s\<bar> \<le> (8 + 2 * D) * u"
    unfolding u_def lm_def D_def using assms by (rule betaToSlider_log)
  obtain lb where lb: "sliderToBeta M (Fin v) =
       js_max (Fin (js_literal (102 / 100)))
         (js_min (Fin 30) (js_add (Fin 1) (js_exp M (Fin lb))))"
    and b: "\<bar>lb - (lm + v / 100 * D)\<bar> \<le> (2 + D) * u"
    unfolding u_def lm_def D_def using v(2) by (rule sliderToBeta_log)
  have "Du \<le> 103 * u" unfolding Du_def using D(2) u by (intro mult_right_mono) simp_all
  moreover have "(8 + 2 * D) * u = 8 * u + 2 * Du" "(2 + D) * u = 2 * u + Du"
    by (simp_all add: Du_def algebra_simps)
  ultimately have d: "\<bar>lb - ln s\<bar> \<le> 320 * u" using f b by linarith
  obtain r where r: "js_add (Fin 1) (js_exp M (Fin lb)) = Fin r"
    "\<bar>r - (1 + s)\<bar> \<le> 19205 * u"
    unfolding u_def by (rule exp_tail [OF s(2,3) d [unfolded u_def]])
  have res: "sliderToBeta M (betaToSlider M beta)
      = Fin (max (js_literal (102 / 100)) (min 30 r))"
    unfolding v(1) lb r by simp
  have "\<bar>r - beta\<bar> \<le> 19206 * u" using r(2) s(1) by linarith
  moreover have "\<bar>max (js_literal (102 / 100)) (min 30 r) - beta\<bar> \<le> \<bar>r - beta\<bar>"
    using assms by (intro clamp_closer) simp_all
  ultimately have "\<bar>max (js_literal (102 / 100)) (min 30 r) - beta\<bar> \<le> 19206 * u"
    by linarith
  then show ?thesis using that [OF res] unfolding u_def by blast
qed

lemma slider_round_trip_flat:
  assumes "102 / 100 < beta" "beta \<le> js_literal (102 / 100)"
  obtains r where "sliderToBeta M (betaToSlider M beta) = Fin r"
    "\<bar>r - beta\<bar> \<le> 19206 * (1 / 2 ^ 37)"
proof -
  define u :: real where "u = 1 / 2 ^ 37"
  define D where "D = slider_logSpan M"
  define lm where "lm = slider_logMin M"
  define Du where "Du = D * u"
  define c where "c = js_literal (2 / 100)"
  define t where "t = js_literal (102 / 100)"
  have D: "1 \<le> D" "D \<le> 103" unfolding D_def by (rule slider_logSpan)+
  have u: "0 < u" by (simp add: u_def)
  have c: "1 / 51 \<le> c" "c \<le> 30" "c \<le> 2 / 100 + 1 / 2 ^ 58" "\<bar>lm - ln c\<bar> \<le> 7 * u"
    using slider_logMin_bounds(1) [of M] slider_logMin_bounds(4,5,6)
    by (simp_all add: c_def lm_def u_def)
  have t: "t \<le> 102 / 100 + 1 / 2 ^ 53" by (simp add: t_def js_literal_51_50)
  have v: "betaToSlider M beta = Fin 0"
    using assms(2) by (simp only: betaToSlider_def if_True)
  have "\<bar>0 :: real\<bar> \<le> 10401" by simp
  then obtain lb where lb: "sliderToBeta M (Fin 0) =
       js_max (Fin (js_literal (102 / 100)))
         (js_min (Fin 30) (js_add (Fin 1) (js_exp M (Fin lb))))"
    and b: "\<bar>lb - (lm + 0 / 100 * D)\<bar> \<le> (2 + D) * u"
    unfolding u_def lm_def D_def by (rule sliderToBeta_log)
  have "Du \<le> 103 * u" unfolding Du_def using D(2) u by (intro mult_right_mono) simp_all
  moreover have "(2 + D) * u = 2 * u + Du"
    by (simp add: Du_def algebra_simps)
  moreover have "lb - (lm + 0 / 100 * D) = lb - lm" by simp
  ultimately have d: "\<bar>lb - ln c\<bar> \<le> 320 * u" using b c(4) by linarith
  obtain r where r: "js_add (Fin 1) (js_exp M (Fin lb)) = Fin r"
    "\<bar>r - (1 + c)\<bar> \<le> 19205 * u"
    unfolding u_def by (rule exp_tail [OF c(1,2) d [unfolded u_def]])
  have res: "sliderToBeta M (betaToSlider M beta) = Fin (max t (min 30 r))"
    unfolding v lb r t_def by simp
  have "(1 :: real) / 2 ^ 58 \<le> u" "(1 :: real) / 2 ^ 53 \<le> u" by (simp_all add: u_def)
  then have "r - beta \<le> 19206 * u" "t - beta \<le> 19206 * u"
    using r(2) c(3) t assms(1) u by linarith+
  moreover have "beta \<le> max t (min 30 r)" using assms(2) by (simp add: t_def)
  moreover have "max t (min 30 r) \<le> max t r" by simp
  ultimately have "\<bar>max t (min 30 r) - beta\<bar> \<le> 19206 * u"
    by (simp add: max_def abs_if split: if_splits)
  then show ?thesis using that [OF res] unfolding u_def by blast
qed

text \<open>
  Claim C7. For every \<open>\<beta>\<close> strictly between 1.02 and 30, \<open>sliderToBeta\<close> of
  \<open>betaToSlider\<close> of \<open>\<beta>\<close> is a finite number within a relative error of \<open>10\<^sup>-\<^sup>6\<close> of \<open>\<beta>\<close>,
  for every \<open>Math.log\<close> and \<open>Math.exp\<close> of the accuracy stated above and with every
  operation rounded to binary64. The two logarithms \<open>logMin\<close> and \<open>logMax\<close> are the same
  numbers in both functions and cancel; what is left is the error of one logarithm, of
  one exponential and of eight rounded operations, below \<open>19206 \<sqdot> 2\<^sup>-\<^sup>3\<^sup>7 < 1.4 \<sqdot> 10\<^sup>-\<^sup>7\<close>.
  Between 1.02 and the number that the literal \<open>1.02\<close> denotes, \<open>betaToSlider\<close> is 0 and
  the round trip returns a number that close to 1.02.
\<close>

theorem slider_round_trip_tolerance:
  assumes "102 / 100 < beta" "beta < 30"
  shows "\<exists>r. sliderToBeta M (betaToSlider M beta) = Fin r
           \<and> \<bar>r - beta\<bar> \<le> 1 / 10 ^ 6 * \<bar>beta\<bar>"
proof -
  obtain r where r: "sliderToBeta M (betaToSlider M beta) = Fin r"
    "\<bar>r - beta\<bar> \<le> 19206 * (1 / 2 ^ 37)"
  proof (cases "beta \<le> js_literal (102 / 100)")
    case True
    with assms(1) show ?thesis by (rule slider_round_trip_flat) (rule that)
  next
    case False
    then have "js_literal (102 / 100) < beta" by simp
    then show ?thesis using assms(2) by (rule slider_round_trip_inner) (rule that)
  qed
  have "(19206 :: real) * (1 / 2 ^ 37) \<le> 1 / 10 ^ 6 * 1" by simp
  also have "\<dots> \<le> 1 / 10 ^ 6 * \<bar>beta\<bar>"
    using assms(1) by (intro mult_left_mono) simp_all
  finally have "\<bar>r - beta\<bar> \<le> 1 / 10 ^ 6 * \<bar>beta\<bar>" using r(2) by linarith
  with r(1) show ?thesis by blast
qed

theorem slider_round_trip_tolerance_witness:
  "\<forall>M. \<exists>r. sliderToBeta M (betaToSlider M (5 / 2)) = Fin r
           \<and> \<bar>r - 5 / 2\<bar> \<le> 1 / 10 ^ 6 * \<bar>5 / 2 :: real\<bar>"
  using slider_round_trip_tolerance [of "5 / 2"] by simp

subsection \<open>The range of the slider mapping\<close>

lemma binary64_num: "binary64 x \<noteq> NaN"
  by (rule binary64_cases [of x]) simp_all

lemma js_div_100_num: "x \<noteq> NaN \<Longrightarrow> js_div x (Fin 100) \<noteq> NaN"
  by (cases x) (simp_all add: binary64_num js_signed_inf_def)

lemma js_mul_pos_num: "0 < y \<Longrightarrow> x \<noteq> NaN \<Longrightarrow> js_mul x (Fin y) \<noteq> NaN"
  by (cases x) (simp_all add: binary64_num js_signed_inf_def)

lemma js_add_fin_num: "x \<noteq> NaN \<Longrightarrow> js_add (Fin a) x \<noteq> NaN"
  by (cases x) (simp_all add: binary64_num)

lemma js_exp_num: "x \<noteq> NaN \<Longrightarrow> js_exp M x \<noteq> NaN"
  by (cases x) simp_all

lemma js_clamp_num:
  assumes "x \<noteq> NaN" "lo \<le> hi"
  shows "\<exists>r. js_max (Fin lo) (js_min (Fin hi) x) = Fin r \<and> lo \<le> r \<and> r \<le> hi"
  using assms by (cases x) simp_all

lemma sliderToBeta_range:
  assumes "sliderValue \<noteq> NaN"
  shows "\<exists>r. sliderToBeta M sliderValue = Fin r \<and> js_literal (102 / 100) \<le> r \<and> r \<le> 30"
proof -
  define D where "D = slider_logSpan M"
  define lm where "lm = slider_logMin M"
  have D: "0 < D" using slider_logSpan(2) [of M] unfolding D_def by linarith
  have c0: "0 < js_literal (2 / 100)"
    using slider_logMin_bounds(4) by (rule less_le_trans [rotated]) simp
  have logMin: "js_log M (Fin (js_literal (2 / 100))) = Fin lm"
    using c0 by (simp only: js_log.simps if_True lm_def slider_logMin_def)
  have span: "js_sub (js_log M (Fin 29)) (Fin lm) = Fin D"
    using slider_logSpan(1) [of M] by (simp only: logMin D_def)
  define x where
    "x = js_add (Fin 1) (js_exp M (js_add (Fin lm) (js_mul (js_div sliderValue (Fin 100)) (Fin D))))"
  have "x \<noteq> NaN"
    unfolding x_def
    by (intro js_add_fin_num js_exp_num js_mul_pos_num js_div_100_num D assms)
  moreover have "js_literal (102 / 100) \<le> 30" by (simp add: js_literal_51_50)
  ultimately have "\<exists>r. js_max (Fin (js_literal (102 / 100))) (js_min (Fin 30) x) = Fin r
      \<and> js_literal (102 / 100) \<le> r \<and> r \<le> 30"
    by (rule js_clamp_num)
  moreover have "sliderToBeta M sliderValue
      = js_max (Fin (js_literal (102 / 100))) (js_min (Fin 30) x)"
    unfolding sliderToBeta_def Let_def logMin span x_def ..
  ultimately show ?thesis by simp
qed

subsection \<open>The lookup value, within one of the formula over the reals\<close>

lemma mlog_ratio_tight:
  assumes "1 < x" "1 < y"
  shows "ln x / ln y * (1 - 1 / 2 ^ 38) \<le> mlog M x / mlog M y"
    and "mlog M x / mlog M y \<le> ln x / ln y * (1 + 1 / 2 ^ 38)"
proof -
  define Q where "Q = ln x / ln y"
  have lx: "0 < ln x" and ly: "0 < ln y" using assms by simp_all
  have Q: "0 \<le> Q" using lx ly by (simp add: Q_def)
  have mx: "0 < mlog M x" using assms(1) by (rule mlog_pos)
  have my: "0 < mlog M y" using assms(2) by (rule mlog_pos)
  have "ln x * (1 - 1 / 2 ^ 40) / (ln y * (1 + 1 / 2 ^ 40)) \<le> mlog M x / mlog M y"
    by (rule frac_le) (use mlog_lower [OF assms(1), of M] mlog_upper [OF assms(2), of M] my lx
        in simp_all)
  moreover have "ln x * (1 - 1 / 2 ^ 40) / (ln y * (1 + 1 / 2 ^ 40))
      = Q * ((1 - 1 / 2 ^ 40) / (1 + 1 / 2 ^ 40))"
    by (simp add: Q_def)
  moreover have "Q * (1 - 1 / 2 ^ 38) \<le> Q * ((1 - 1 / 2 ^ 40) / (1 + 1 / 2 ^ 40))"
    using Q by (intro mult_left_mono) simp_all
  ultimately show "ln x / ln y * (1 - 1 / 2 ^ 38) \<le> mlog M x / mlog M y"
    unfolding Q_def by linarith
  have lo: "0 < ln y * (1 - 1 / 2 ^ 40)" using ly by simp
  have "mlog M x / mlog M y \<le> ln x * (1 + 1 / 2 ^ 40) / (ln y * (1 - 1 / 2 ^ 40))"
    by (rule frac_le) (use mlog_lower [OF assms(2), of M] mlog_upper [OF assms(1), of M] mx lo
        in simp_all)
  moreover have "ln x * (1 + 1 / 2 ^ 40) / (ln y * (1 - 1 / 2 ^ 40))
      = Q * ((1 + 1 / 2 ^ 40) / (1 - 1 / 2 ^ 40))"
    by (simp add: Q_def)
  moreover have "Q * ((1 + 1 / 2 ^ 40) / (1 - 1 / 2 ^ 40)) \<le> Q * (1 + 1 / 2 ^ 38)"
    using Q by (intro mult_left_mono) simp_all
  ultimately show "mlog M x / mlog M y \<le> ln x / ln y * (1 + 1 / 2 ^ 38)"
    unfolding Q_def by linarith
qed

lemma binary64_PInf:
  assumes "binary64 x = PInf"
  shows "2 ^ 1024 \<le> round64 x"
proof -
  define t :: real where "t = 2 ^ 1024"
  define y where "y = round64 x"
  have t: "0 < t" by (simp add: t_def)
  have b: "binary64 x = (if t \<le> \<bar>y\<bar> then js_signed_inf (y < 0) else Fin y)"
    by (simp only: binary64_def Let_def t_def y_def)
  have "t \<le> \<bar>y\<bar>" using assms b by (cases "t \<le> \<bar>y\<bar>") simp_all
  moreover have "\<not> y < 0" using assms b calculation by (simp add: js_signed_inf_def split: if_splits)
  ultimately have "t \<le> y" by linarith
  then show ?thesis by (simp only: t_def y_def)
qed

lemma min_floor_near:
  fixes y Q :: real and gap :: int
  assumes "Q * (1 - 1 / 2 ^ 37) \<le> y" "y \<le> Q * (1 + 1 / 2 ^ 37)" "1 \<le> Q" "gap < 2 ^ 30"
  shows "\<bar>min gap \<lfloor>y\<rfloor> - min gap \<lfloor>Q\<rfloor>\<bar> \<le> 1"
proof (cases "Q \<le> 2 ^ 36")
  case True
  define e where "e = Q / 2 ^ 37"
  have "e \<le> 2 ^ 36 / 2 ^ 37" unfolding e_def using True by (rule divide_right_mono) simp
  then have h: "e \<le> 1 / 2" by simp
  have a1: "Q - e \<le> y" using assms(1) by (simp add: e_def right_diff_distrib)
  have a2: "y \<le> Q + e" using assms(2) by (simp add: e_def distrib_left)
  have b: "Q - 1 \<le> y" "y \<le> Q + 1" using a1 a2 h by linarith+
  have "\<lfloor>Q - 1\<rfloor> \<le> \<lfloor>y\<rfloor>" using b(1) by (rule floor_mono)
  moreover have "\<lfloor>y\<rfloor> \<le> \<lfloor>Q + 1\<rfloor>" using b(2) by (rule floor_mono)
  ultimately have "\<lfloor>Q - 1\<rfloor> \<le> \<lfloor>y\<rfloor>" "\<lfloor>y\<rfloor> \<le> \<lfloor>Q + 1\<rfloor>" by blast+
  then have "\<lfloor>Q\<rfloor> - 1 \<le> \<lfloor>y\<rfloor>" "\<lfloor>y\<rfloor> \<le> \<lfloor>Q\<rfloor> + 1" by simp_all
  then show ?thesis by (simp add: min_def abs_if)
next
  case False
  then have Q: "2 ^ 36 \<le> Q" by simp
  have "(1 / 2 :: real) \<le> 1 - 1 / 2 ^ 37" by simp
  then have "Q * (1 / 2) \<le> Q * (1 - 1 / 2 ^ 37)" using assms(3) by (intro mult_left_mono) simp_all
  then have "2 ^ 35 \<le> y" using assms(1) Q by simp
  then have "(of_int (2 ^ 35) :: real) \<le> y" by simp
  then have a: "2 ^ 35 \<le> \<lfloor>y\<rfloor>" by (simp only: le_floor_iff)
  have "(of_int (2 ^ 35) :: real) \<le> Q" using Q by simp
  then have b: "2 ^ 35 \<le> \<lfloor>Q\<rfloor>" by (simp only: le_floor_iff)
  have "gap \<le> 2 ^ 35" using assms(4) by simp
  then have "gap \<le> \<lfloor>y\<rfloor>" "gap \<le> \<lfloor>Q\<rfloor>" using a b by linarith+
  then have "min gap \<lfloor>y\<rfloor> = gap" "min gap \<lfloor>Q\<rfloor> = gap" by (simp_all only: min_absorb1)
  then show ?thesis by simp
qed

lemma getLutValue_near_spec:
  assumes "1 < beta" "0 \<le> gap" "gap < 2 ^ 30"
  shows "\<exists>L. getLutValue M gap beta = js_int L \<and> \<bar>L - spec_lutValue gap beta\<bar> \<le> 1"
proof (cases "2 \<le> beta \<and> 0 < gap")
  case True
  then have "getLutValue M gap beta = js_int 1" "spec_lutValue gap beta = 1"
    using assms by (simp_all add: getLutValue_unfold spec_lutValue_def js_int_def)
  then show ?thesis by (intro exI [of _ 1]) simp
next
  case False
  show ?thesis
  proof (cases "gap = 0")
    case True
    obtain L where "getLutValue M 0 beta = js_int L" "0 \<le> L" "L \<le> 0"
      using getLutValue_int [OF assms(1), of 0 M] by auto
    then have "getLutValue M gap beta = js_int 0" using True by simp
    moreover have "spec_lutValue gap beta = 0" using True by (simp add: spec_lutValue_def)
    ultimately show ?thesis by (intro exI [of _ 0]) simp
  next
    case pos: False
    then have g: "0 < gap" using assms(2) by simp
    then have b2: "beta < 2" using False by simp
    define x :: real where "x = of_int (gap + 1)"
    define Q where "Q = ln x / ln beta"
    define Q' where "Q' = mlog M x / mlog M beta"
    define y where "y = round64 Q'"
    have x: "2 \<le> x" using g by (simp add: x_def)
    then have x1: "1 < x" by linarith
    have lb: "0 < ln beta" using assms(1) by simp
    have "ln beta \<le> ln x" using assms(1) b2 x by (subst ln_le_cancel_iff) simp_all
    then have Q1: "1 \<le> Q" using lb by (simp add: Q_def)
    have r: "Q * (1 - 1 / 2 ^ 38) \<le> Q'" "Q' \<le> Q * (1 + 1 / 2 ^ 38)"
      unfolding Q_def Q'_def using x1 assms(1) by (rule mlog_ratio_tight)+
    have "(1 / 2 :: real) \<le> 1 - 1 / 2 ^ 38" by simp
    then have "Q * (1 / 2) \<le> Q * (1 - 1 / 2 ^ 38)" using Q1 by (intro mult_left_mono) simp_all
    then have Q'h: "1 / 2 \<le> Q'" using r(1) Q1 by linarith
    have "(1 :: real) / 2 ^ 60 \<le> 1 / 2" by simp
    then have "1 / 2 ^ 60 \<le> \<bar>Q'\<bar>" using Q'h by linarith
    then have "\<bar>y - Q'\<bar> \<le> \<bar>Q'\<bar> / 2 ^ 52" unfolding y_def by (rule round64_rel)
    then have yq: "Q' - Q' / 2 ^ 52 \<le> y" "y \<le> Q' + Q' / 2 ^ 52" using Q'h by linarith+
    have ylo: "Q * (1 - 1 / 2 ^ 37) \<le> y"
    proof -
      have "Q * (1 - 1 / 2 ^ 37) \<le> Q * ((1 - 1 / 2 ^ 38) * (1 - 1 / 2 ^ 52))"
        using Q1 by (intro mult_left_mono) simp_all
      also have "\<dots> = Q * (1 - 1 / 2 ^ 38) * (1 - 1 / 2 ^ 52)" by (simp only: mult.assoc)
      also have "\<dots> \<le> Q' * (1 - 1 / 2 ^ 52)" using r(1) by (intro mult_right_mono) simp_all
      also have "\<dots> = Q' - Q' / 2 ^ 52" by (simp add: algebra_simps)
      finally show ?thesis using yq(1) by linarith
    qed
    have yhi: "y \<le> Q * (1 + 1 / 2 ^ 37)"
    proof -
      have "Q' + Q' / 2 ^ 52 = Q' * (1 + 1 / 2 ^ 52)" by (simp add: algebra_simps)
      also have "\<dots> \<le> Q * (1 + 1 / 2 ^ 38) * (1 + 1 / 2 ^ 52)"
        using r(2) by (intro mult_right_mono) simp_all
      also have "\<dots> = Q * ((1 + 1 / 2 ^ 38) * (1 + 1 / 2 ^ 52))" by (simp only: mult.assoc)
      also have "\<dots> \<le> Q * (1 + 1 / 2 ^ 37)"
        using Q1 by (intro mult_left_mono) simp_all
      finally show ?thesis using yq(2) by linarith
    qed
    have near: "\<bar>min gap \<lfloor>y\<rfloor> - min gap \<lfloor>Q\<rfloor>\<bar> \<le> 1"
      using ylo yhi Q1 assms(3) by (rule min_floor_near)
    have sp: "spec_lutValue gap beta = min gap \<lfloor>Q\<rfloor>"
      using b2 by (simp add: spec_lutValue_def Q_def x_def)
    have u: "getLutValue M gap beta = js_min (js_int gap) (js_floor (binary64 Q'))"
      using getLutValue_unfold [OF assms(1,2), of M] b2 by (simp add: Q'_def x_def)
    have "getLutValue M gap beta = js_int (min gap \<lfloor>y\<rfloor>)"
    proof (rule binary64_cases [of Q'])
      fix z assume "binary64 Q' = Fin z" "z = round64 Q'"
      then show ?thesis unfolding u by (simp add: js_int_def y_def)
    next
      assume p: "binary64 Q' = PInf" "0 < Q'"
      have "(2 :: real) ^ 30 \<le> 2 ^ 1024" by (rule power_increasing) simp_all
      moreover have "2 ^ 1024 \<le> y" unfolding y_def using p(1) by (rule binary64_PInf)
      moreover have "(of_int gap :: real) < of_int (2 ^ 30)"
        using assms(3) by (simp only: of_int_less_iff)
      ultimately have "of_int gap \<le> y" by simp
      then have "gap \<le> \<lfloor>y\<rfloor>" by (simp only: le_floor_iff)
      then show ?thesis unfolding u p(1) by (simp add: js_int_def min_def)
    next
      assume "binary64 Q' = NInf" "Q' < 0"
      then show ?thesis using Q'h by linarith
    qed
    then show ?thesis using near sp by (intro exI [of _ "min gap \<lfloor>y\<rfloor>"]) simp
  qed
qed


text \<open>
  Claim C6, amended. For every \<open>beta > 1\<close> and every gap \<open>d \<ge> 0\<close>, \<open>getLutValue\<close> returns 1
  when \<open>beta \<ge> 2\<close> and \<open>d > 0\<close>, and \<open>min(d, floor(log(d + 1) / log(beta)))\<close>
  otherwise, where \<open>log\<close> is the \<open>Math.log\<close> of the implementation and the quotient is
  rounded to binary64. The value is an integer between 0 and \<open>d\<close>; for \<open>d < 2\<^sup>3\<^sup>0\<close> it
  differs by at most 1 from the value of the formula with the real logarithm and the
  exact quotient; and it is 0 for \<open>d = 0\<close> whatever \<open>beta\<close> is.
\<close>

theorem getLutValue_formula:
  assumes "1 < beta" "0 \<le> gap"
  shows "getLutValue M gap beta =
           (if 2 \<le> beta \<and> 0 < gap then Fin 1
            else js_min (js_int gap)
                   (js_floor (binary64 (mlog M (of_int (gap + 1)) / mlog M beta))))
         \<and> (\<exists>L. getLutValue M gap beta = js_int L \<and> 0 \<le> L \<and> L \<le> gap
                \<and> (gap < 2 ^ 30 \<longrightarrow> \<bar>L - spec_lutValue gap beta\<bar> \<le> 1))
         \<and> getLutValue M 0 beta = Fin 0"
proof (intro conjI)
  show "getLutValue M gap beta =
           (if 2 \<le> beta \<and> 0 < gap then Fin 1
            else js_min (js_int gap)
                   (js_floor (binary64 (mlog M (of_int (gap + 1)) / mlog M beta))))"
    using assms by (rule getLutValue_unfold)
  obtain L where L: "getLutValue M gap beta = js_int L" "0 \<le> L" "L \<le> gap"
    using getLutValue_int [OF assms, of M] by blast
  have "\<bar>L - spec_lutValue gap beta\<bar> \<le> 1" if g: "gap < 2 ^ 30"
  proof -
    obtain L' where "getLutValue M gap beta = js_int L'" "\<bar>L' - spec_lutValue gap beta\<bar> \<le> 1"
      using getLutValue_near_spec [OF assms g, of M] by blast
    then show ?thesis using L(1) by (simp add: js_int_def)
  qed
  then show "\<exists>L. getLutValue M gap beta = js_int L \<and> 0 \<le> L \<and> L \<le> gap
                \<and> (gap < 2 ^ 30 \<longrightarrow> \<bar>L - spec_lutValue gap beta\<bar> \<le> 1)"
    using L by blast
  obtain L0 where "getLutValue M 0 beta = js_int L0" "0 \<le> L0" "L0 \<le> 0"
    using getLutValue_int [OF assms(1), of 0 M] by auto
  then show "getLutValue M 0 beta = Fin 0" by (simp add: js_int_def)
qed

theorem getLutValue_formula_witness:
  "\<forall>M. getLutValue M 5 (3 / 2) =
         js_min (js_int 5) (js_floor (binary64 (mlog M (of_int (5 + 1)) / mlog M (3 / 2))))
       \<and> getLutValue M 5 (3 / 2) = Fin 4
       \<and> \<bar>4 - spec_lutValue 5 (3 / 2)\<bar> \<le> 1
       \<and> getLutValue M 5 (5 / 2) = Fin 1
       \<and> getLutValue M 0 (3 / 2) = Fin 0"
proof
  fix M
  have h: "(1 :: real) < 3 / 2" "(0 :: int) \<le> 5" by simp_all
  obtain L where L: "getLutValue M 5 (3 / 2) = js_int L"
    "5 < (2 :: int) ^ 30 \<longrightarrow> \<bar>L - spec_lutValue 5 (3 / 2)\<bar> \<le> 1"
    using getLutValue_formula [OF h, of M] by blast
  have "L = 4" using L(1) getLutValue_5_full_lut [of M] by (simp add: js_int_def)
  then have "\<bar>4 - spec_lutValue 5 (3 / 2)\<bar> \<le> 1" using L(2) by simp
  then show "getLutValue M 5 (3 / 2) =
         js_min (js_int 5) (js_floor (binary64 (mlog M (of_int (5 + 1)) / mlog M (3 / 2))))
       \<and> getLutValue M 5 (3 / 2) = Fin 4
       \<and> \<bar>4 - spec_lutValue 5 (3 / 2)\<bar> \<le> 1
       \<and> getLutValue M 5 (5 / 2) = Fin 1
       \<and> getLutValue M 0 (3 / 2) = Fin 0"
    using getLutValue_formula [of "3 / 2" 5 M] getLutValue_formula [of "5 / 2" 5 M]
      getLutValue_5_full_lut [of M]
    by simp
qed

end
